theory Spec2Isabelle
  imports Main "HOL-Library.AList"
begin

section \<open>JavaScript values and objects\<close>

text \<open>
  The jobs handle untyped data: customer documents, warehouse rows and provider
  payloads are \<^verbatim>\<open>Record<string, any>\<close>. A value is one of the runtime shapes
  below. Numbers are modelled as unbounded integers plus \<open>JNaN\<close> (fractions and
  the range of a double are not modelled). A \<open>Date\<close> object carries its time
  value in milliseconds; \<open>None\<close> is the time value \<open>NaN\<close> of an Invalid Date.
\<close>

datatype jsval =
    JUndefined
  | JNull
  | JBool bool
  | JNum int
  | JNaN
  | JStr string
  | JArr "jsval list"
  | JDate "int option"

text \<open>ToBoolean: what \<^verbatim>\<open>!x\<close>, \<^verbatim>\<open>x || y\<close> and \<^verbatim>\<open>x && y\<close> test. Every object,
  a Date or an array included, is truthy.\<close>

fun truthy :: "jsval \<Rightarrow> bool" where
  "truthy JUndefined = False"
| "truthy JNull = False"
| "truthy (JBool b) = b"
| "truthy (JNum n) = (n \<noteq> 0)"
| "truthy JNaN = False"
| "truthy (JStr s) = (s \<noteq> [])"
| "truthy (JArr xs) = True"
| "truthy (JDate t) = True"

definition js_or :: "jsval \<Rightarrow> jsval \<Rightarrow> jsval" where
  "js_or a b = (if truthy a then a else b)"

text \<open>An object is its list of own properties in insertion order. Reading a
  property that is absent yields \<open>undefined\<close>; assignment replaces the value in
  place or appends the property (\<open>AList.update\<close>).\<close>

type_synonym obj = "(string \<times> jsval) list"

definition get_field :: "obj \<Rightarrow> string \<Rightarrow> jsval" where
  "get_field ob k = (case map_of ob k of None \<Rightarrow> JUndefined | Some v \<Rightarrow> v)"

definition set_field :: "string \<Rightarrow> jsval \<Rightarrow> obj \<Rightarrow> obj" where
  "set_field k v ob = AList.update k v ob"

definition object_keys :: "obj \<Rightarrow> string list" where
  "object_keys ob = map fst ob"

text \<open>Relational comparison of two Dates compares their time values; any
  comparison with \<open>NaN\<close> is false.\<close>

fun date_lt :: "int option \<Rightarrow> int option \<Rightarrow> bool" where
  "date_lt (Some a) (Some b) = (a < b)"
| "date_lt a b = False"

text \<open>\<^verbatim>\<open>new Date(n)\<close> for a number \<open>n\<close>: the time value is \<open>n\<close> when it lies within
  8.64e15 milliseconds of the epoch, and \<open>NaN\<close> (an Invalid Date) otherwise.\<close>

definition maxTime :: int where
  "maxTime = 8640000000000000"

definition timeClip :: "int option \<Rightarrow> int option" where
  "timeClip t =
     (case t of
        None \<Rightarrow> None
      | Some ms \<Rightarrow> if - maxTime \<le> ms \<and> ms \<le> maxTime then Some ms else None)"

text \<open>\<^verbatim>\<open>toUTCString()\<close> prints a Date to the second. The model keeps the
  instant the printed string denotes instead of its characters.\<close>

definition toUTCString :: "int option \<Rightarrow> int option" where
  "toUTCString t = map_option (\<lambda>ms. ms - ms mod 1000) t"


section \<open>The integrations processor (warehouse sync)\<close>

subsection \<open>Entities\<close>

datatype FrequencyUnit = HOUR | DAY | WEEK | MONTH | YEAR

datatype DBType = DATABRICKS | POSTGRESQL

definition hourMs :: int where "hourMs = 60 * 60 * 1000"
definition dayMs :: int where "dayMs = 24 * hourMs"
definition weekMs :: int where "weekMs = 7 * dayMs"
definition monthMs :: int where "monthMs = 30 * dayMs"
definition yearMs :: int where "yearMs = 365 * dayMs"

fun frequencyUnitToMsMap :: "FrequencyUnit \<Rightarrow> int" where
  "frequencyUnitToMsMap HOUR = hourMs"
| "frequencyUnitToMsMap DAY = dayMs"
| "frequencyUnitToMsMap WEEK = weekMs"
| "frequencyUnitToMsMap MONTH = monthMs"
| "frequencyUnitToMsMap YEAR = yearMs"

text \<open>\<open>lastSync\<close> holds the time value of \<^verbatim>\<open>new Date(lastSync)\<close>, \<open>None\<close> when
  the stored value does not parse.\<close>

record Database =
  db_id :: jsval
  dbType :: DBType
  frequencyUnit :: FrequencyUnit
  frequencyNumber :: int
  lastSync :: "int option"
  query :: string

record Account =
  acc_id :: jsval

record Integration =
  database :: "Database option"
  owner :: Account

subsection \<open>Collaborators, effects and errors\<close>

datatype error =
    WrongIntegration
  | ConnectorError string
  | StoreError string
  | TypeError

text \<open>Every call to a collaborator is recorded, in order. \<open>CloseSession\<close> stands
  for \<^verbatim>\<open>session.close()\<close>, a call of the connector's interface that the
  processor has no statement for.\<close>

datatype event =
    Connect
  | OpenSession
  | ExecuteStatement string
  | FetchChunk
  | HasMoreRows
  | CloseOperation
  | CloseSession
  | FindOne jsval jsval
  | SaveCustomer obj
  | CreateCustomer obj
  | SaveDatabase jsval "int option"

record world =
  customers :: "obj list"
  trace :: "event list"

text \<open>What the remote warehouse does, given as data. One \<open>fetch_step\<close> is one
  round of the fetch loop: \<^verbatim>\<open>fetchChunk\<close> raises \<open>chunk_err\<close> or returns \<open>rows\<close>,
  then \<^verbatim>\<open>hasMoreRows\<close> raises \<open>more_err\<close> or returns \<open>has_more\<close>. A cursor whose steps
  are used up returns an empty chunk and has no more rows.\<close>

record fetch_step =
  chunk_err :: "error option"
  rows :: "obj list"
  more_err :: "error option"
  has_more :: bool

record warehouse =
  connect_err :: "error option"
  session_err :: "error option"
  execute_err :: "error option"
  steps :: "fetch_step list"
  close_err :: "error option"

text \<open>The customer store may reject a lookup or a write.\<close>

record store_faults =
  find_fails :: "jsval \<Rightarrow> bool"
  write_fails :: "obj \<Rightarrow> bool"

record env =
  now_check :: int
  now_save :: int
  remote :: warehouse
  faults :: store_faults

text \<open>An awaited call: it is recorded, then it returns or raises. A raised
  error ends the enclosing function; what was written before stays written.\<close>

definition call :: "event \<Rightarrow> error option \<Rightarrow> world \<Rightarrow> error option \<times> world" where
  "call ev err w = (err, w\<lparr>trace := trace w @ [ev]\<rparr>)"

definition andThen ::
  "error option \<times> world \<Rightarrow> (world \<Rightarrow> error option \<times> world) \<Rightarrow> error option \<times> world" where
  "andThen r f = (case r of (Some e, w) \<Rightarrow> (Some e, w) | (None, w) \<Rightarrow> f w)"

subsection \<open>handleDatabricksSync\<close>

text \<open>\<^verbatim>\<open>customerModel.findOne({ databricksId: customer.id, ownerId: owner.id })\<close>:
  the position of the first document whose two fields equal the given values.\<close>

definition matches :: "jsval \<Rightarrow> jsval \<Rightarrow> obj \<Rightarrow> bool" where
  "matches cid oid doc =
     (get_field doc ''databricksId'' = cid \<and> get_field doc ''ownerId'' = oid)"

fun findOne :: "(obj \<Rightarrow> bool) \<Rightarrow> obj list \<Rightarrow> nat option" where
  "findOne P [] = None"
| "findOne P (d # ds) =
     (if P d then Some 0 else map_option Suc (findOne P ds))"

text \<open>The inner loop over \<^verbatim>\<open>Object.keys(customer)\<close> of the update branch.\<close>

definition merge_key :: "obj \<Rightarrow> string \<Rightarrow> obj \<Rightarrow> obj" where
  "merge_key customer key doc =
     (if key = ''id'' then doc else set_field key (get_field customer key) doc)"

definition merge_row :: "obj \<Rightarrow> obj \<Rightarrow> obj" where
  "merge_row customer doc = fold (merge_key customer) (object_keys customer) doc"

text \<open>The object literal of the create branch:
  \<^verbatim>\<open>{ ...customer, ownerId: owner.id, id: undefined, databricksId: customer.id }\<close>.\<close>

definition new_customer :: "Account \<Rightarrow> obj \<Rightarrow> obj" where
  "new_customer own customer =
     set_field ''databricksId'' (get_field customer ''id'')
       (set_field ''id'' JUndefined
         (set_field ''ownerId'' (acc_id own) customer))"

text \<open>The body of \<^verbatim>\<open>for (const customer of customers)\<close>.\<close>

definition sync_row :: "store_faults \<Rightarrow> Account \<Rightarrow> obj \<Rightarrow> world \<Rightarrow> error option \<times> world" where
  "sync_row f own customer w =
     (if \<not> truthy (get_field customer ''id'') then (None, w)
      else
        andThen
          (call (FindOne (get_field customer ''id'') (acc_id own))
             (if find_fails f (get_field customer ''id'')
              then Some (StoreError ''findOne'') else None) w)
          (\<lambda>w1.
            case findOne (matches (get_field customer ''id'') (acc_id own)) (customers w1) of
              Some i \<Rightarrow>
                (let doc = merge_row customer (customers w1 ! i) in
                 if write_fails f doc
                 then call (SaveCustomer doc) (Some (StoreError ''save'')) w1
                 else call (SaveCustomer doc) None
                        (w1\<lparr>customers := (customers w1)[i := doc]\<rparr>))
            | None \<Rightarrow>
                (let doc = new_customer own customer in
                 if write_fails f doc
                 then call (CreateCustomer doc) (Some (StoreError ''create'')) w1
                 else call (CreateCustomer doc) None
                        (w1\<lparr>customers := customers w1 @ [doc]\<rparr>))))"

fun sync_rows :: "store_faults \<Rightarrow> Account \<Rightarrow> obj list \<Rightarrow> world \<Rightarrow> error option \<times> world" where
  "sync_rows f own [] w = (None, w)"
| "sync_rows f own (c # cs) w =
     (case sync_row f own c w of
        (Some e, w') \<Rightarrow> (Some e, w')
      | (None, w') \<Rightarrow> sync_rows f own cs w')"

text \<open>\<^verbatim>\<open>while (hasMoreRows) { fetchChunk; for ...; hasMoreRows = ... }\<close>. The flag
  starts true, so the first chunk is always fetched.\<close>

fun fetch_loop :: "store_faults \<Rightarrow> Account \<Rightarrow> fetch_step list \<Rightarrow> world \<Rightarrow> error option \<times> world" where
  "fetch_loop f own [] w =
     (case call FetchChunk None w of
        (Some e, w1) \<Rightarrow> (Some e, w1)
      | (None, w1) \<Rightarrow> call HasMoreRows None w1)"
| "fetch_loop f own (s # ss) w =
     (case call FetchChunk (chunk_err s) w of
        (Some e, w1) \<Rightarrow> (Some e, w1)
      | (None, w1) \<Rightarrow>
          (case sync_rows f own (rows s) w1 of
             (Some e, w2) \<Rightarrow> (Some e, w2)
           | (None, w2) \<Rightarrow>
               (case call HasMoreRows (more_err s) w2 of
                  (Some e, w3) \<Rightarrow> (Some e, w3)
                | (None, w3) \<Rightarrow>
                    (if has_more s then fetch_loop f own ss w3 else (None, w3)))))"

text \<open>Everything \<^verbatim>\<open>handleDatabricksSync\<close> does before its last statement.\<close>

definition open_and_fetch ::
  "warehouse \<Rightarrow> store_faults \<Rightarrow> Database \<Rightarrow> Account \<Rightarrow> world \<Rightarrow> error option \<times> world" where
  "open_and_fetch wh f db own w =
     andThen (call Connect (connect_err wh) w) (\<lambda>w.
     andThen (call OpenSession (session_err wh) w) (\<lambda>w.
     andThen (call (ExecuteStatement (query db)) (execute_err wh) w) (\<lambda>w.
       fetch_loop f own (steps wh) w)))"

definition handleDatabricksSync ::
  "warehouse \<Rightarrow> store_faults \<Rightarrow> Database \<Rightarrow> Account \<Rightarrow> world \<Rightarrow> error option \<times> world" where
  "handleDatabricksSync wh f db own w =
     andThen (open_and_fetch wh f db own w) (\<lambda>w.
       call CloseOperation (close_err wh) w)"

subsection \<open>handleDatabaseSync\<close>

fun databasesMap ::
  "env \<Rightarrow> DBType \<Rightarrow> Database \<Rightarrow> Account \<Rightarrow> world \<Rightarrow> error option \<times> world" where
  "databasesMap e DATABRICKS db own w = handleDatabricksSync (remote e) (faults e) db own w"
| "databasesMap e POSTGRESQL db own w = (None, w)"

definition syncTime :: "Database \<Rightarrow> int option" where
  "syncTime db =
     map_option (\<lambda>t. t + frequencyNumber db * frequencyUnitToMsMap (frequencyUnit db))
       (lastSync db)"

text \<open>The job's payload is \<^verbatim>\<open>job.data.integration\<close>, possibly undefined. The due
  check is \<^verbatim>\<open>new Date(syncTime) < new Date()\<close>: the left Date is invalid when
  \<open>syncTime\<close> is \<open>NaN\<close> or out of range, the right one is the clock's.\<close>

definition handleDatabaseSync :: "env \<Rightarrow> Integration option \<Rightarrow> world \<Rightarrow> error option \<times> world" where
  "handleDatabaseSync e job w =
     (case job of
        None \<Rightarrow> (Some WrongIntegration, w)
      | Some integration \<Rightarrow>
          (case database integration of
             None \<Rightarrow> (Some WrongIntegration, w)
           | Some db \<Rightarrow>
               if date_lt (timeClip (syncTime db)) (Some (now_check e)) then (None, w)
               else
                 andThen (databasesMap e (dbType db) db (owner integration) w) (\<lambda>w.
                   call (SaveDatabase (db_id db) (toUTCString (Some (now_save e)))) None w)))"


section \<open>The cron service\<close>

definition BATCH_SIZE :: nat where
  "BATCH_SIZE = 500"

definition KEYS_TO_SKIP :: "string list" where
  "KEYS_TO_SKIP = [''__v'', ''_id'', ''audiences'', ''ownerId'']"

subsection \<open>handleCustomerKeysCron: scanning the customers\<close>

text \<open>The accumulator \<^verbatim>\<open>keys: Record<string, any[]>\<close>: per field name, the values
  seen so far, as the list of the accumulator's own properties.\<close>

type_synonym samples = "(string \<times> jsval list) list"

text \<open>The accumulator starts as \<^verbatim>\<open>{}\<close>, a plain object, so it inherits the
  properties of \<^verbatim>\<open>Object.prototype\<close>. For a field of one of these names the test
  \<^verbatim>\<open>if (keys[key])\<close> finds the inherited value, which is truthy and has no
  \<^verbatim>\<open>push\<close>: the call raises a TypeError. The accumulator never gets such a
  name as a property of its own.\<close>

definition object_prototype_names :: "string list" where
  "object_prototype_names =
     [''constructor'', ''__proto__'', ''hasOwnProperty'', ''isPrototypeOf'',
      ''propertyIsEnumerable'', ''toLocaleString'', ''toString'', ''valueOf'',
      ''__defineGetter__'', ''__defineSetter__'', ''__lookupGetter__'',
      ''__lookupSetter__'']"

definition collect_key :: "obj \<Rightarrow> string \<Rightarrow> samples \<Rightarrow> error + samples" where
  "collect_key ob key keys =
     (if key \<in> set KEYS_TO_SKIP then Inr keys
      else case map_of keys key of
             Some xs \<Rightarrow> Inr (AList.update key (xs @ [get_field ob key]) keys)
           | None \<Rightarrow>
               if key \<in> set object_prototype_names then Inl TypeError
               else Inr (AList.update key [get_field ob key] keys))"

text \<open>\<^verbatim>\<open>for (const key of Object.keys(obj))\<close>, ended by the first error.\<close>

fun collect_keys :: "obj \<Rightarrow> string list \<Rightarrow> samples \<Rightarrow> error + samples" where
  "collect_keys ob [] keys = Inr keys"
| "collect_keys ob (key # rest) keys =
     (case collect_key ob key keys of
        Inl e \<Rightarrow> Inl e
      | Inr keys' \<Rightarrow> collect_keys ob rest keys')"

definition collect_customer :: "obj \<Rightarrow> samples \<Rightarrow> error + samples" where
  "collect_customer ob keys = collect_keys ob (object_keys ob) keys"

text \<open>\<^verbatim>\<open>batch.forEach((customer) => ...)\<close>.\<close>

fun collect_batch :: "obj list \<Rightarrow> samples \<Rightarrow> error + samples" where
  "collect_batch [] keys = Inr keys"
| "collect_batch (customer # rest) keys =
     (case collect_customer customer keys of
        Inl e \<Rightarrow> Inl e
      | Inr keys' \<Rightarrow> collect_batch rest keys')"

text \<open>\<^verbatim>\<open>while (current < documentsCount)\<close>: \<open>documentsCount\<close> is the store's
  estimate, read once; a batch is \<^verbatim>\<open>find().skip(current).limit(BATCH_SIZE)\<close>.\<close>

function scan :: "obj list \<Rightarrow> nat \<Rightarrow> nat \<Rightarrow> samples \<Rightarrow> error + samples" where
  "scan store documentsCount current keys =
     (if current < documentsCount
      then (case collect_batch (take BATCH_SIZE (drop current store)) keys of
              Inl e \<Rightarrow> Inl e
            | Inr keys' \<Rightarrow> scan store documentsCount (current + BATCH_SIZE) keys')
      else Inr keys)"
  by pat_completeness auto
termination
  by (relation "measure (\<lambda>(store, documentsCount, current, keys). documentsCount - current)")
     (auto simp: BATCH_SIZE_def)

declare scan.simps [simp del]

subsection \<open>handleCustomerKeysCron: inferring the types\<close>

text \<open>The libraries the job calls are parameters: \<^verbatim>\<open>getType\<close> of tst-reflect
  (the name of a value's type and whether it is an array type), \<^verbatim>\<open>isEmail\<close> and
  \<^verbatim>\<open>isDateString\<close> of class-validator.\<close>

record jstype =
  type_name :: string
  type_isArray :: bool

record reflection =
  getType :: "jsval \<Rightarrow> jstype"
  isEmail :: "jsval \<Rightarrow> bool"
  isDateString :: "jsval \<Rightarrow> bool"

text \<open>\<^verbatim>\<open>validItem[0]\<close>.\<close>

fun index0 :: "jsval \<Rightarrow> jsval" where
  "index0 (JArr (x # xs)) = x"
| "index0 (JStr (c # cs)) = JStr [c]"
| "index0 v = JUndefined"

definition usable :: "jsval \<Rightarrow> bool" where
  "usable item = (item \<noteq> JStr [] \<and> item \<noteq> JUndefined \<and> item \<noteq> JNull)"

text \<open>\<^verbatim>\<open>Array.prototype.find\<close> returns \<open>undefined\<close> when no element passes.\<close>

definition find_valid :: "jsval list \<Rightarrow> jsval" where
  "find_valid xs = (case List.find usable xs of None \<Rightarrow> JUndefined | Some item \<Rightarrow> item)"

definition infer :: "reflection \<Rightarrow> jsval \<Rightarrow> string \<times> bool" where
  "infer lib validItem =
     (let keyType = getType lib validItem;
          isArray = type_isArray keyType;
          ty0 = (if isArray then type_name (getType lib (index0 validItem))
                 else type_name keyType);
          ty2 = (if ty0 = ''String''
                 then (let ty1 = (if isEmail lib validItem then ''Email'' else ty0)
                       in (if isDateString lib validItem then ''Date'' else ty1))
                 else ty0)
      in (ty2, isArray))"

text \<open>The field-metadata collection, one entry per key, and the record of the
  \<^verbatim>\<open>updateOne({ key }, { $set: { key, type, isArray } }, { upsert: true })\<close> calls.
  The calls to the two collections are taken to return normally. \<open>logged\<close> holds
  the errors that the job's \<^verbatim>\<open>catch\<close> has passed to the logger.\<close>

record keys_world =
  customerKeys :: "(string \<times> string \<times> bool) list"
  updates :: "(string \<times> string \<times> bool) list"
  logged :: "error list"

text \<open>The body of \<^verbatim>\<open>for (const key of Object.keys(keys))\<close>; such a key always
  has its sample list.\<close>

definition infer_key :: "reflection \<Rightarrow> samples \<Rightarrow> string \<Rightarrow> keys_world \<Rightarrow> keys_world" where
  "infer_key lib keys key w =
     (let validItem = find_valid (case map_of keys key of None \<Rightarrow> [] | Some xs \<Rightarrow> xs) in
      if validItem = JStr [] \<or> validItem = JUndefined \<or> validItem = JNull then w
      else (case infer lib validItem of
              (ty, isArray) \<Rightarrow>
                w\<lparr>customerKeys := AList.update key (ty, isArray) (customerKeys w),
                  updates := updates w @ [(key, ty, isArray)]\<rparr>))"

definition handleCustomerKeysCron ::
  "reflection \<Rightarrow> obj list \<Rightarrow> nat \<Rightarrow> keys_world \<Rightarrow> keys_world" where
  "handleCustomerKeysCron lib store documentsCount w =
     (case scan store documentsCount 0 [] of
        Inl e \<Rightarrow> w\<lparr>logged := logged w @ [e]\<rparr>
      | Inr keys \<Rightarrow> fold (infer_key lib keys) (map fst keys) w)"

subsection \<open>handleClickHouseCron: the watermark\<close>

text \<open>\<^verbatim>\<open>new Date(v)\<close> for the values a JSON response can hold (an array is
  taken as unparseable); \<open>parse\<close> is the runtime's \<^verbatim>\<open>Date.parse\<close>.\<close>

fun newDate :: "(string \<Rightarrow> int option) \<Rightarrow> jsval \<Rightarrow> int option" where
  "newDate parse JUndefined = None"
| "newDate parse JNull = Some 0"
| "newDate parse (JBool b) = Some (if b then 1 else 0)"
| "newDate parse (JNum n) = timeClip (Some n)"
| "newDate parse JNaN = None"
| "newDate parse (JStr s) = parse s"
| "newDate parse (JArr xs) = None"
| "newDate parse (JDate t) = t"

fun getTime :: "jsval \<Rightarrow> int option" where
  "getTime (JDate t) = t"
| "getTime v = None"

text \<open>\<open>dateInDB\<close> is \<^verbatim>\<open>data?.[0]?.['max(createdAt)']\<close>, \<open>tzOffset\<close> is
  \<^verbatim>\<open>new Date().getTimezoneOffset()\<close> in minutes.\<close>

definition lastEventFetch :: "(string \<Rightarrow> int option) \<Rightarrow> int \<Rightarrow> jsval \<Rightarrow> jsval" where
  "lastEventFetch parse tzOffset dateInDB =
     js_or (JDate (timeClip
              (map_option (\<lambda>t. t - tzOffset * 60 * 1000) (newDate parse dateInDB))))
           (JDate (newDate parse (JStr ''2000-10-10'')))"

subsection \<open>handleClickHouseCron: the pull provider\<close>

text \<open>An event of the provider. \<open>user_variables\<close> and \<open>message_id\<close> are \<open>None\<close>
  when \<^verbatim>\<open>item['user-variables']\<close>, respectively \<^verbatim>\<open>item.message.headers\<close>, is
  undefined, where reading a property raises a TypeError. \<open>timestamp\<close> is in
  seconds, \<open>None\<close> when it is missing.\<close>

record mg_item =
  user_variables :: "obj option"
  mg_event :: jsval
  message_id :: "jsval option"
  timestamp :: "int option"

record mg_page =
  items :: "mg_item list"
  next_number :: jsval

text \<open>\<^verbatim>\<open>mg.events.get(domain, { begin, ascending, page })\<close> for one account: from
  the begin instant and the page asked for (none in the first call) to a page or
  an error.\<close>

type_synonym mg_client = "int option \<Rightarrow> jsval option \<Rightarrow> error + mg_page"

fun push_items :: "mg_item list \<Rightarrow> obj list \<Rightarrow> error + obj list" where
  "push_items [] batchToSave = Inr batchToSave"
| "push_items (item # rest) batchToSave =
     (case user_variables item of
        None \<Rightarrow> Inl TypeError
      | Some uv \<Rightarrow>
          if \<not> truthy (get_field uv ''audienceId'') \<or> \<not> truthy (get_field uv ''customerId'')
          then push_items rest batchToSave
          else (case message_id item of
                  None \<Rightarrow> Inl TypeError
                | Some messageId \<Rightarrow>
                    push_items rest
                      (batchToSave @
                        [[(''audienceId'', get_field uv ''audienceId''),
                          (''customerId'', get_field uv ''customerId''),
                          (''event'', mg_event item),
                          (''eventProvider'', JStr ''mailgun''),
                          (''messageId'', messageId),
                          (''createdAt'',
                             JDate (toUTCString (timeClip
                               (map_option (\<lambda>s. s * 1000) (timestamp item)))))]])))"

text \<open>\<^verbatim>\<open>events.items[events.items.length - 1]?.timestamp * 1000\<close>: \<open>NaN\<close> for a
  page without items.\<close>

definition lastEventTimestamp :: "mg_item list \<Rightarrow> int option" where
  "lastEventTimestamp its =
     (case its of [] \<Rightarrow> None | x # xs \<Rightarrow> map_option (\<lambda>s. s * 1000) (timestamp (last its)))"

text \<open>The loop guard
  \<^verbatim>\<open>lastEventTimestamp && new Date(lastEventTimestamp) > lastEventFetch\<close>.\<close>

definition continue_paging :: "int option \<Rightarrow> int option \<Rightarrow> bool" where
  "continue_paging lts fetched =
     (case lts of
        None \<Rightarrow> False
      | Some t \<Rightarrow> t \<noteq> 0 \<and> date_lt fetched (timeClip (Some t)))"

definition begin_of :: "int option \<Rightarrow> int option" where
  "begin_of fetched = toUTCString (timeClip (map_option (\<lambda>t. t + 1000) fetched))"

text \<open>The inner \<^verbatim>\<open>while\<close> loop. It ends when the guard fails or a call raises;
  a provider that keeps returning newer events keeps it running, so the result
  is optional. \<open>asked\<close> lists the pages requested by the loop.\<close>

partial_function (option) page_loop ::
  "mg_client \<Rightarrow> int option \<Rightarrow> jsval \<Rightarrow> int option \<Rightarrow> obj list \<Rightarrow> jsval list
     \<Rightarrow> ((error + obj list) \<times> jsval list) option" where
  "page_loop mg fetched page lts batchToSave asked =
     (if continue_paging lts fetched
      then (case mg (begin_of fetched) (Some page) of
              Inl e \<Rightarrow> Some (Inl e, asked @ [page])
            | Inr events \<Rightarrow>
                (case push_items (items events) batchToSave of
                   Inl e \<Rightarrow> Some (Inl e, asked @ [page])
                 | Inr batch' \<Rightarrow>
                     page_loop mg fetched (next_number events)
                       (lastEventTimestamp (items events)) batch' (asked @ [page])))
      else Some (Inr batchToSave, asked))"

text \<open>The \<^verbatim>\<open>try\<close> block for one account, up to \<^verbatim>\<open>insertMessages(batchToSave)\<close>.\<close>

definition fetch_account ::
  "mg_client \<Rightarrow> int option \<Rightarrow> ((error + obj list) \<times> jsval list) option" where
  "fetch_account mg fetched =
     (case mg (begin_of fetched) None of
        Inl e \<Rightarrow> Some (Inl e, [])
      | Inr events \<Rightarrow>
          (case push_items (items events) [] of
             Inl e \<Rightarrow> Some (Inl e, [])
           | Inr batchToSave \<Rightarrow>
               page_loop mg fetched (next_number events)
                 (lastEventTimestamp (items events)) batchToSave []))"

subsection \<open>handleClickHouseCron: the push provider\<close>

text \<open>The staging table of webhook rows, the analytical sink, and the calls
  made to them. The calls are taken to return normally. The rows of the table
  carry a primary key, so they are distinct; the loop itself does not rely on it.\<close>

datatype sg_call =
    StagingFind "obj list"
  | SinkInsert "obj list"
  | StagingDelete obj

record ch_world =
  staging :: "obj list"
  sink :: "obj list"
  calls :: "sg_call list"

definition insertMessages :: "obj list \<Rightarrow> ch_world \<Rightarrow> ch_world" where
  "insertMessages vals w = w\<lparr>sink := sink w @ vals, calls := calls w @ [SinkInsert vals]\<rparr>"

text \<open>\<^verbatim>\<open>sendgridEventRepository.delete(item)\<close> removes the rows that agree with
  \<open>item\<close> in every column.\<close>

definition delete_row :: "obj \<Rightarrow> ch_world \<Rightarrow> ch_world" where
  "delete_row item w =
     w\<lparr>staging := filter (\<lambda>r. r \<noteq> item) (staging w),
       calls := calls w @ [StagingDelete item]\<rparr>"

definition tag_sendgrid :: "obj \<Rightarrow> obj" where
  "tag_sendgrid item = set_field ''eventProvider'' (JStr ''sendgrid'') item"

definition drain_batch :: "obj list \<Rightarrow> ch_world \<Rightarrow> ch_world" where
  "drain_batch batch w = fold delete_row batch (insertMessages (map tag_sendgrid batch) w)"

lemma staging_fold_delete:
  "staging (fold delete_row batch w) = filter (\<lambda>r. r \<notin> set batch) (staging w)"
  by (induction batch arbitrary: w) (auto simp: delete_row_def intro: filter_cong)

lemma staging_drain_batch:
  "staging (drain_batch batch w) = filter (\<lambda>r. r \<notin> set batch) (staging w)"
  by (simp add: drain_batch_def staging_fold_delete insertMessages_def)

lemma hd_in_take: "0 < length (take n xs) \<Longrightarrow> hd xs \<in> set (take n xs) \<and> hd xs \<in> set xs"
  by (cases xs; cases n) auto

lemma drain_batch_shrinks:
  assumes "0 < length (take BATCH_SIZE (staging w))"
  shows "length (staging (drain_batch (take BATCH_SIZE (staging w))
           (w\<lparr>calls := calls w @ [StagingFind (take BATCH_SIZE (staging w))]\<rparr>)))
         < length (staging w)"
proof -
  let ?batch = "take BATCH_SIZE (staging w)"
  from hd_in_take[OF assms]
  have "hd (staging w) \<in> set (staging w)" and "\<not> hd (staging w) \<notin> set ?batch"
    by simp_all
  then have "length (filter (\<lambda>r. r \<notin> set ?batch) (staging w)) < length (staging w)"
    by (rule length_filter_less)
  then show ?thesis
    by (simp add: staging_drain_batch)
qed

text \<open>\<^verbatim>\<open>batch = find(); while (batch.length > 0) { insert; delete each; batch = find() }\<close>,
  written with the fetch at the head of each round.\<close>

function drain :: "ch_world \<Rightarrow> ch_world" where
  "drain w =
     (let batch = take BATCH_SIZE (staging w);
          w1 = w\<lparr>calls := calls w @ [StagingFind batch]\<rparr>
      in if 0 < length batch then drain (drain_batch batch w1) else w1)"
  by pat_completeness auto
termination
  by (relation "measure (\<lambda>w. length (staging w))") (auto simp: drain_batch_shrinks)

declare drain.simps [simp del]


section \<open>Notions used in the statements\<close>

text \<open>The calls the drain loop is expected to make for distinct pending rows,
  in the words of the specification: fetch up to 500 rows, insert them tagged,
  delete each of them, and again, until a fetch returns no row.\<close>

function expected_calls :: "obj list \<Rightarrow> sg_call list" where
  "expected_calls pending =
     (if pending = [] then [StagingFind []]
      else [StagingFind (take BATCH_SIZE pending),
            SinkInsert (map tag_sendgrid (take BATCH_SIZE pending))]
           @ map StagingDelete (take BATCH_SIZE pending)
           @ expected_calls (drop BATCH_SIZE pending))"
  by pat_completeness auto
termination
  by (relation "measure length") (auto simp: BATCH_SIZE_def)

declare expected_calls.simps [simp del]

text \<open>The batches fetched, and the batches inserted, in a list of calls.\<close>

fun fetched_batches :: "sg_call list \<Rightarrow> obj list list" where
  "fetched_batches [] = []"
| "fetched_batches (StagingFind b # cs) = b # fetched_batches cs"
| "fetched_batches (c # cs) = fetched_batches cs"

fun inserted_batches :: "sg_call list \<Rightarrow> obj list list" where
  "inserted_batches [] = []"
| "inserted_batches (SinkInsert b # cs) = b # inserted_batches cs"
| "inserted_batches (c # cs) = inserted_batches cs"

text \<open>The calls that \<^verbatim>\<open>handleDatabricksSync\<close> does not make before its fetch
  loop has ended.\<close>

fun after_fetch :: "event \<Rightarrow> bool" where
  "after_fetch CloseOperation = True"
| "after_fetch CloseSession = True"
| "after_fetch (SaveDatabase i t) = True"
| "after_fetch ev = False"

text \<open>Whether the customer store raises on the call recorded as an event.\<close>

fun raises :: "store_faults \<Rightarrow> event \<Rightarrow> bool" where
  "raises f (FindOne v oid) = find_fails f v"
| "raises f (SaveCustomer d) = write_fails f d"
| "raises f (CreateCustomer d) = write_fails f d"
| "raises f ev = False"



text \<open>A run only adds calls; a store call that raises is the last call of the
  run; a run that returns normally has made no store call that raises.\<close>

definition stops_at_raise :: "store_faults \<Rightarrow> world \<Rightarrow> error option \<times> world \<Rightarrow> bool" where
  "stops_at_raise f w r =
     (\<exists>evs. trace (snd r) = trace w @ evs
        \<and> (\<forall>ev \<in> set (butlast evs). \<not> raises f ev)
        \<and> (fst r = None \<longrightarrow> (\<forall>ev \<in> set evs. \<not> raises f ev)))"

text \<open>The accumulator of the scan is well formed: one entry per key, none of
  them a structural key.\<close>

definition samples_ok :: "samples \<Rightarrow> bool" where
  "samples_ok keys = (distinct (map fst keys) \<and> set (map fst keys) \<inter> set KEYS_TO_SKIP = {})"

definition samples_of :: "samples \<Rightarrow> string \<Rightarrow> jsval list" where
  "samples_of keys key = (case map_of keys key of None \<Rightarrow> [] | Some xs \<Rightarrow> xs)"

section \<open>Sample data\<close>

text \<open>Concrete inputs on which the theorems below are instantiated.\<close>

definition ex_faults :: store_faults where
  "ex_faults = \<lparr>find_fails = (\<lambda>v. False), write_fails = (\<lambda>d. False)\<rparr>"

definition ex_owner :: Account where
  "ex_owner = \<lparr>acc_id = JStr ''acc''\<rparr>"

definition ex_database :: "DBType \<Rightarrow> Database" where
  "ex_database t = \<lparr>db_id = JNum 1, dbType = t, frequencyUnit = DAY, frequencyNumber = 1,
     lastSync = Some 0, query = ''select''\<rparr>"

definition ex_remote :: warehouse where
  "ex_remote = \<lparr>connect_err = None, session_err = None, execute_err = None,
     steps = [\<lparr>chunk_err = None, rows = [[(''id'', JNum 7), (''name'', JStr ''Ann'')]],
               more_err = None, has_more = False\<rparr>],
     close_err = None\<rparr>"

definition ex_env :: "int \<Rightarrow> env" where
  "ex_env now = \<lparr>now_check = now, now_save = now + 1500, remote = ex_remote, faults = ex_faults\<rparr>"

definition ex_job :: "DBType \<Rightarrow> Integration option" where
  "ex_job t = Some \<lparr>database = Some (ex_database t), owner = ex_owner\<rparr>"

definition ex_world :: world where
  "ex_world = \<lparr>customers = [[(''name'', JStr ''Bob''), (''ownerId'', JStr ''acc''),
       (''databricksId'', JNum 9), (''plan'', JStr ''free'')]], trace = []\<rparr>"

text \<open>A reflection library that names a value's type by its shape, with an
  email test and a date test that never accept the same value.\<close>

fun shape_type :: "jsval \<Rightarrow> jstype" where
  "shape_type (JStr s) = \<lparr>type_name = ''String'', type_isArray = False\<rparr>"
| "shape_type (JNum n) = \<lparr>type_name = ''Number'', type_isArray = False\<rparr>"
| "shape_type JNaN = \<lparr>type_name = ''Number'', type_isArray = False\<rparr>"
| "shape_type (JBool b) = \<lparr>type_name = ''Boolean'', type_isArray = False\<rparr>"
| "shape_type (JDate t) = \<lparr>type_name = ''Date'', type_isArray = False\<rparr>"
| "shape_type (JArr xs) = \<lparr>type_name = ''Array'', type_isArray = True\<rparr>"
| "shape_type JUndefined = \<lparr>type_name = ''undefined'', type_isArray = False\<rparr>"
| "shape_type JNull = \<lparr>type_name = ''null'', type_isArray = False\<rparr>"

fun has_at :: "jsval \<Rightarrow> bool" where
  "has_at (JStr s) = (CHR ''@'' \<in> set s)"
| "has_at v = False"

fun iso_day :: "jsval \<Rightarrow> bool" where
  "iso_day (JStr s) = (length s = 10 \<and> s ! 4 = CHR ''-'' \<and> s ! 7 = CHR ''-'' \<and> CHR ''@'' \<notin> set s)"
| "iso_day v = False"

definition ex_lib :: reflection where
  "ex_lib = \<lparr>getType = shape_type, isEmail = has_at, isDateString = iso_day\<rparr>"

definition ex_store :: "obj list" where
  "ex_store =
     [[(''_id'', JNum 1), (''email'', JStr []), (''name'', JStr ''Ann''), (''__v'', JNum 0)],
      [(''_id'', JNum 2), (''email'', JNull), (''name'', JStr []), (''ownerId'', JStr ''acc'')]]"

definition ex_keys_world :: keys_world where
  "ex_keys_world = \<lparr>customerKeys = [(''email'', ''String'', False)], updates = [], logged = []\<rparr>"

text \<open>Two customers, the second with a field named \<^verbatim>\<open>constructor\<close>.\<close>

definition ex_store_inherited :: "obj list" where
  "ex_store_inherited =
     [[(''_id'', JNum 1), (''name'', JStr ''Ann'')],
      [(''_id'', JNum 2), (''constructor'', JStr ''x''), (''name'', JStr ''Bob'')]]"

definition ex_item :: mg_item where
  "ex_item = \<lparr>user_variables = Some [(''audienceId'', JStr ''aud''), (''customerId'', JStr ''cus'')],
     mg_event = JStr ''delivered'', message_id = Some (JStr ''m1''), timestamp = Some 100\<rparr>"

definition ex_mg :: mg_client where
  "ex_mg begin page =
     (case page of
        None \<Rightarrow> Inr \<lparr>items = [ex_item], next_number = JStr ''p2''\<rparr>
      | Some p \<Rightarrow> Inr \<lparr>items = [], next_number = p\<rparr>)"

definition ex_rows :: "nat \<Rightarrow> obj list" where
  "ex_rows n = map (\<lambda>i. [(''id'', JNum (int i)), (''event'', JStr ''delivered'')]) [0..<n]"

section \<open>Properties of the warehouse sync\<close>

subsection \<open>Reading fields after an update\<close>

lemma get_set_field: "get_field (set_field k v ob) k' = (if k' = k then v else get_field ob k')"
  by (simp add: get_field_def set_field_def update_conv')

lemma get_fold_merge:
  "get_field (fold (merge_key customer) ks doc) k =
     (if k \<in> set ks \<and> k \<noteq> ''id'' then get_field customer k else get_field doc k)"
  by (induction ks arbitrary: doc) (auto simp: merge_key_def get_set_field)

lemma get_merge_row:
  "get_field (merge_row customer doc) k =
     (if k \<in> set (object_keys customer) \<and> k \<noteq> ''id'' then get_field customer k else get_field doc k)"
  by (simp add: merge_row_def get_fold_merge)

lemma get_new_customer:
  "get_field (new_customer own customer) k =
     (if k = ''databricksId'' then get_field customer ''id''
      else if k = ''id'' then JUndefined
      else if k = ''ownerId'' then acc_id own
      else get_field customer k)"
  by (simp add: new_customer_def get_set_field)

lemma findOne_None: "findOne P ds = None \<longleftrightarrow> (\<forall>d \<in> set ds. \<not> P d)"
  by (induction ds) auto

lemma findOne_Some:
  "findOne P ds = Some i \<Longrightarrow> i < length ds \<and> P (ds ! i) \<and> (\<forall>j < i. \<not> P (ds ! j))"
proof (induction ds arbitrary: i)
  case Nil then show ?case by simp
next
  case (Cons d ds)
  show ?case
  proof (cases "P d")
    case True with Cons.prems show ?thesis by simp
  next
    case False
    with Cons.prems obtain i' where i': "findOne P ds = Some i'" "i = Suc i'" by auto
    from Cons.IH[OF i'(1)] False i'(2) show ?thesis
      by (auto simp: less_Suc_eq_0_disj)
  qed
qed

subsection \<open>Calls that come after the fetch loop\<close>

lemma call_closes:
  "ev \<noteq> c \<Longrightarrow> count_list (trace (snd (call ev err w))) c = count_list (trace w) c"
  by (simp add: call_def)

lemma sync_row_closes:
  "after_fetch c \<Longrightarrow>
   count_list (trace (snd (sync_row f own r w))) c = count_list (trace w) c"
  by (cases c) (auto simp: sync_row_def andThen_def call_def Let_def split: option.splits)

lemma sync_rows_closes:
  "after_fetch c \<Longrightarrow>
   count_list (trace (snd (sync_rows f own rs w))) c = count_list (trace w) c"
proof (induction rs arbitrary: w)
  case Nil then show ?case by simp
next
  case (Cons r rs)
  obtain x w' where s: "sync_row f own r w = (x, w')" by (cases "sync_row f own r w")
  from sync_row_closes[OF Cons.prems, of f own r w] s
  have "count_list (trace w') c = count_list (trace w) c" by simp
  with Cons.IH[OF Cons.prems, of w'] s show ?case by (cases x) auto
qed

lemma fetch_loop_closes:
  "after_fetch c \<Longrightarrow>
   count_list (trace (snd (fetch_loop f own ss w))) c = count_list (trace w) c"
proof (induction ss arbitrary: w)
  case Nil then show ?case by (cases c) (auto simp: call_def)
next
  case (Cons s ss)
  from Cons.prems have ne: "c \<noteq> FetchChunk" "c \<noteq> HasMoreRows" by auto
  let ?w1 = "w\<lparr>trace := trace w @ [FetchChunk]\<rparr>"
  obtain x w2 where r: "sync_rows f own (rows s) ?w1 = (x, w2)" by (cases "sync_rows f own (rows s) ?w1")
  from sync_rows_closes[OF Cons.prems, of f own "rows s" ?w1] r ne
  have w2: "count_list (trace w2) c = count_list (trace w) c" by auto
  let ?w3 = "w2\<lparr>trace := trace w2 @ [HasMoreRows]\<rparr>"
  from w2 ne have w3: "count_list (trace ?w3) c = count_list (trace w) c" by auto
  from Cons.IH[OF Cons.prems, of ?w3] w3
  have ih: "count_list (trace (snd (fetch_loop f own ss ?w3))) c = count_list (trace w) c" by simp
  show ?case
    using r w2 w3 ih ne
    by (cases "chunk_err s"; cases x; cases "more_err s"; cases "has_more s")
       (auto simp: call_def)
qed

lemma open_and_fetch_closes:
  "after_fetch c \<Longrightarrow>
   count_list (trace (snd (open_and_fetch wh f db own w))) c = count_list (trace w) c"
proof -
  assume c: "after_fetch c"
  then have ne: "c \<noteq> Connect" "c \<noteq> OpenSession" "c \<noteq> ExecuteStatement (query db)" by auto
  show ?thesis
    using fetch_loop_closes[OF c, of f own "steps wh"] ne
    by (cases "connect_err wh"; cases "session_err wh"; cases "execute_err wh")
       (auto simp: open_and_fetch_def andThen_def call_def)
qed

lemma databasesMap_saves:
  "count_list (trace (snd (databasesMap e t db own w))) (SaveDatabase i ts) =
     count_list (trace w) (SaveDatabase i ts)"
proof (cases t)
  case POSTGRESQL
  then show ?thesis by simp
next
  case DATABRICKS
  obtain x w' where r: "open_and_fetch (remote e) (faults e) db own w = (x, w')"
    by (cases "open_and_fetch (remote e) (faults e) db own w")
  have "count_list (trace w') (SaveDatabase i ts) = count_list (trace w) (SaveDatabase i ts)"
    using open_and_fetch_closes[of "SaveDatabase i ts" "remote e" "faults e" db own w] r by simp
  then show ?thesis
    using DATABRICKS r by (cases x) (auto simp: handleDatabricksSync_def andThen_def call_def)
qed

subsection \<open>Errors end the run\<close>


lemma stops_same_trace: "trace w' = trace w \<Longrightarrow> stops_at_raise f w (x, w')"
  by (simp add: stops_at_raise_def)







lemma andThen_case:
  "(case r of (Some e, w1) \<Rightarrow> (Some e, w1) | (None, w1) \<Rightarrow> g w1) = andThen r g"
  by (simp add: andThen_def)












subsection \<open>The due check\<close>

text \<open>
  Claim C3, as amended. For a task that carries a database configuration, let the
  due time be \<open>lastSync + frequencyNumber * unitDuration\<close>. The job returns at once,
  with no connector call, no write of \<open>lastSync\<close> and the world unchanged, if and
  only if \<open>lastSync\<close> is a valid date, the due time lies within the range of a
  Date (8.64e15 milliseconds either side of the epoch) and the due time is
  earlier than now. In every other case (the due time has not passed, \<open>lastSync\<close>
  does not parse, or the due time is out of range, where the Date compared is
  invalid) the job is the connector selected by \<open>dbType\<close> followed by the write of
  \<open>lastSync\<close>, which happens when the connector returns normally. So with
  \<open>lastSync = T\<close>, \<open>frequencyNumber = 1\<close> and unit \<open>DAY\<close> a task checked at
  \<open>T + 12 hours\<close> proceeds, and one checked at \<open>T + 2 days\<close> is skipped when
  \<open>T + 1 day\<close> is within the range of a Date.
\<close>

theorem C3_due_check:
  "job = Some integration \<Longrightarrow> database integration = Some db \<Longrightarrow>
   (handleDatabaseSync e job w = (None, w)) =
      (\<exists>T. lastSync db = Some T
         \<and> - maxTime \<le> T + frequencyNumber db * frequencyUnitToMsMap (frequencyUnit db)
         \<and> T + frequencyNumber db * frequencyUnitToMsMap (frequencyUnit db) \<le> maxTime
         \<and> T + frequencyNumber db * frequencyUnitToMsMap (frequencyUnit db) < now_check e)
   \<and> (handleDatabaseSync e job w \<noteq> (None, w) \<longrightarrow>
        handleDatabaseSync e job w =
          andThen (databasesMap e (dbType db) db (owner integration) w)
            (\<lambda>w'. call (SaveDatabase (db_id db) (toUTCString (Some (now_save e)))) None w')
        \<and> (fst (databasesMap e (dbType db) db (owner integration) w) = None \<longrightarrow>
             trace (snd (handleDatabaseSync e job w)) =
               trace (snd (databasesMap e (dbType db) db (owner integration) w)) @
                 [SaveDatabase (db_id db) (toUTCString (Some (now_save e)))]))
   \<and> (lastSync db = Some T \<and> frequencyNumber db = 1 \<and> frequencyUnit db = DAY \<and>
        now_check e = T + 12 * hourMs \<longrightarrow>
        handleDatabaseSync e job w \<noteq> (None, w))
   \<and> (lastSync db = Some T \<and> frequencyNumber db = 1 \<and> frequencyUnit db = DAY \<and>
        - maxTime \<le> T + dayMs \<and> T + dayMs \<le> maxTime \<and> now_check e = T + 2 * dayMs \<longrightarrow>
        handleDatabaseSync e job w = (None, w))"
proof -
  assume a: "job = Some integration" "database integration = Some db"
  let ?n = "frequencyNumber db * frequencyUnitToMsMap (frequencyUnit db)"
  let ?run = "databasesMap e (dbType db) db (owner integration) w"
  let ?ev = "SaveDatabase (db_id db) (toUTCString (Some (now_save e)))"
  let ?save = "\<lambda>w'. call ?ev None w'"
  let ?skip = "\<exists>T. lastSync db = Some T \<and> - maxTime \<le> T + ?n \<and> T + ?n \<le> maxTime
                 \<and> T + ?n < now_check e"
  have gate: "date_lt (timeClip (syncTime db)) (Some (now_check e)) = ?skip"
    by (cases "lastSync db") (auto simp: syncTime_def timeClip_def)
  have unf: "handleDatabaseSync e job w =
      (if date_lt (timeClip (syncTime db)) (Some (now_check e)) then (None, w)
       else andThen ?run ?save)"
    using a by (simp add: handleDatabaseSync_def)
  have skip: "?skip \<Longrightarrow> handleDatabaseSync e job w = (None, w)"
    unfolding unf gate by (rule if_P)
  have go: "\<not> ?skip \<Longrightarrow> handleDatabaseSync e job w = andThen ?run ?save"
    unfolding unf gate by (rule if_not_P)
  have tr: "fst ?run = None \<Longrightarrow> trace (snd (andThen ?run ?save)) = trace (snd ?run) @ [?ev]"
    by (cases ?run) (auto simp: andThen_def call_def)
  have differs: "andThen ?run ?save \<noteq> (None, w)"
  proof (cases "fst ?run")
    case None
    have "count_list (trace (snd (andThen ?run ?save))) ?ev = Suc (count_list (trace w) ?ev)"
      using tr[OF None] databasesMap_saves[of e "dbType db" db "owner integration" w]
      by simp
    then show ?thesis by auto
  next
    case (Some err)
    then show ?thesis by (cases ?run) (auto simp: andThen_def)
  qed
  have iff: "(handleDatabaseSync e job w = (None, w)) = ?skip"
    using skip go differs by metis
  have rest: "handleDatabaseSync e job w \<noteq> (None, w) \<Longrightarrow>
      handleDatabaseSync e job w = andThen ?run ?save
      \<and> (fst ?run = None \<longrightarrow> trace (snd (handleDatabaseSync e job w)) = trace (snd ?run) @ [?ev])"
    using iff go tr by metis
  have half: "lastSync db = Some T \<Longrightarrow> frequencyNumber db = 1 \<Longrightarrow> frequencyUnit db = DAY \<Longrightarrow>
      now_check e = T + 12 * hourMs \<Longrightarrow> \<not> ?skip"
    by (simp add: hourMs_def dayMs_def)
  have two: "lastSync db = Some T \<Longrightarrow> frequencyNumber db = 1 \<Longrightarrow> frequencyUnit db = DAY \<Longrightarrow>
      - maxTime \<le> T + dayMs \<Longrightarrow> T + dayMs \<le> maxTime \<Longrightarrow> now_check e = T + 2 * dayMs \<Longrightarrow> ?skip"
    by (simp add: hourMs_def dayMs_def)
  from iff rest half two show ?thesis
    by (intro conjI impI) (blast | (elim conjE, blast))+
qed

text \<open>A due time far in the past: a million years before a \<open>lastSync\<close> at the
  epoch. It is out of the range of a Date, the Date compared is invalid, the
  comparison is false, and the job proceeds and writes \<open>lastSync\<close>.\<close>

theorem C3_counterexample:
  "0 + (- 1000000) * frequencyUnitToMsMap YEAR < (1700000000000 :: int)
   \<and> handleDatabaseSync (ex_env 1700000000000)
       (Some \<lparr>database = Some \<lparr>db_id = JNum 1, dbType = POSTGRESQL, frequencyUnit = YEAR,
                 frequencyNumber = - 1000000, lastSync = Some 0, query = ''select''\<rparr>,
               owner = ex_owner\<rparr>)
       \<lparr>customers = [], trace = []\<rparr>
     = (None, \<lparr>customers = [], trace = [SaveDatabase (JNum 1) (Some 1700000001000)]\<rparr>)"
  by (simp add: handleDatabaseSync_def syncTime_def timeClip_def maxTime_def yearMs_def dayMs_def
        hourMs_def ex_env_def andThen_def call_def toUTCString_def)

text \<open>At \<open>T = 0\<close>: checked after 12 hours the task syncs and writes \<open>lastSync\<close>
  (the save instant printed to the second); checked after 2 days it does nothing.\<close>

theorem C3_witness:
  "handleDatabaseSync (ex_env (12 * hourMs)) (ex_job DATABRICKS) ex_world =
     (None,
      \<lparr>customers = customers ex_world @
         [[(''id'', JUndefined), (''name'', JStr ''Ann''), (''ownerId'', JStr ''acc''),
           (''databricksId'', JNum 7)]],
       trace =
         [Connect, OpenSession, ExecuteStatement ''select'', FetchChunk,
          FindOne (JNum 7) (JStr ''acc''),
          CreateCustomer [(''id'', JUndefined), (''name'', JStr ''Ann''),
            (''ownerId'', JStr ''acc''), (''databricksId'', JNum 7)],
          HasMoreRows, CloseOperation, SaveDatabase (JNum 1) (Some 43201000)]\<rparr>)
   \<and> handleDatabaseSync (ex_env (2 * dayMs)) (ex_job DATABRICKS) ex_world = (None, ex_world)"
proof -
  let ?i = "\<lparr>database = Some (ex_database DATABRICKS), owner = ex_owner\<rparr>"
  have j: "ex_job DATABRICKS = Some ?i" by (simp add: ex_job_def)
  have d: "database ?i = Some (ex_database DATABRICKS)" by simp
  have l: "lastSync (ex_database DATABRICKS) = Some 0"
    and n: "frequencyNumber (ex_database DATABRICKS) = 1"
    and u: "frequencyUnit (ex_database DATABRICKS) = DAY"
    by (simp_all add: ex_database_def)
  have r: "- maxTime \<le> 0 + dayMs \<and> 0 + dayMs \<le> maxTime"
    by (simp add: maxTime_def dayMs_def hourMs_def)
  have c: "now_check (ex_env (2 * dayMs)) = 0 + 2 * dayMs" by (simp add: ex_env_def)
  from C3_due_check[OF j d, where e = "ex_env (2 * dayMs)" and w = ex_world and T = 0] l n u r c
  have skipped: "handleDatabaseSync (ex_env (2 * dayMs)) (ex_job DATABRICKS) ex_world = (None, ex_world)"
    by blast
  have "handleDatabaseSync (ex_env (12 * hourMs)) (ex_job DATABRICKS) ex_world =
     (None,
      \<lparr>customers = customers ex_world @
         [[(''id'', JUndefined), (''name'', JStr ''Ann''), (''ownerId'', JStr ''acc''),
           (''databricksId'', JNum 7)]],
       trace =
         [Connect, OpenSession, ExecuteStatement ''select'', FetchChunk,
          FindOne (JNum 7) (JStr ''acc''),
          CreateCustomer [(''id'', JUndefined), (''name'', JStr ''Ann''),
            (''ownerId'', JStr ''acc''), (''databricksId'', JNum 7)],
          HasMoreRows, CloseOperation, SaveDatabase (JNum 1) (Some 43201000)]\<rparr>)"
    by (simp add: handleDatabaseSync_def syncTime_def timeClip_def maxTime_def
        ex_job_def ex_database_def ex_env_def ex_world_def ex_remote_def ex_faults_def
        ex_owner_def hourMs_def dayMs_def andThen_def call_def toUTCString_def
        handleDatabricksSync_def open_and_fetch_def sync_row_def Let_def
        get_field_def matches_def new_customer_def set_field_def)
  with skipped show ?thesis by simp
qed

text \<open>
  Claim C10. When the task passes validation and the due check and its \<open>dbType\<close> is
  \<open>POSTGRESQL\<close>, the connector does nothing (no read or write of the customer
  store, no call at all), and the job still saves \<open>lastSync\<close> as the current time.
  The due check is passed when the Date compared is not earlier than now, an
  invalid Date included.
\<close>

theorem C10_postgres_advances_lastSync:
  "job = Some integration \<Longrightarrow> database integration = Some db \<Longrightarrow> dbType db = POSTGRESQL \<Longrightarrow>
   \<not> date_lt (timeClip (syncTime db)) (Some (now_check e)) \<Longrightarrow>
   handleDatabaseSync e job w =
     (None, w\<lparr>trace := trace w @ [SaveDatabase (db_id db) (toUTCString (Some (now_save e)))]\<rparr>)
   \<and> customers (snd (handleDatabaseSync e job w)) = customers w
   \<and> databasesMap e (dbType db) db (owner integration) w = (None, w)"
  by (simp add: handleDatabaseSync_def andThen_def call_def)

theorem C10_witness:
  "handleDatabaseSync (ex_env (12 * hourMs)) (ex_job POSTGRESQL) ex_world =
     (None, ex_world\<lparr>trace := trace ex_world @ [SaveDatabase (JNum 1) (Some 43201000)]\<rparr>)"
  using C10_postgres_advances_lastSync[of "ex_job POSTGRESQL"
          "\<lparr>database = Some (ex_database POSTGRESQL), owner = ex_owner\<rparr>"
          "ex_database POSTGRESQL" "ex_env (12 * hourMs)" ex_world]
  by (simp add: ex_job_def ex_database_def ex_env_def hourMs_def dayMs_def syncTime_def
        timeClip_def maxTime_def toUTCString_def)

subsection \<open>Merging a warehouse row\<close>

text \<open>
  Claim C5, as amended. With a customer store that accepts the calls: a row whose
  \<open>id\<close> is absent or otherwise falsy (\<open>null\<close>, \<open>0\<close>, the empty string, \<open>false\<close>) is
  skipped and nothing is touched. For a row with a truthy \<open>id\<close>: if some record
  has \<open>databricksId\<close> equal to the row's \<open>id\<close> and \<open>ownerId\<close> equal to the owner's
  id, the first such record is replaced by its merge with the row and every
  other record stays as it is; the merged record holds the row's value for every
  field of the row except \<open>id\<close> and its own value for every other field. If there
  is no such record, one record is appended: it holds \<open>databricksId\<close> = the row's
  \<open>id\<close>, \<open>id\<close> = undefined, \<open>ownerId\<close> = the owner's id, and the row's value for
  every other field.
\<close>

theorem C5_upsert_row:
  "(\<forall>v. \<not> find_fails f v) \<Longrightarrow> (\<forall>d. \<not> write_fails f d) \<Longrightarrow>
   (\<not> truthy (get_field row ''id'') \<longrightarrow> sync_row f own row w = (None, w))
   \<and> (truthy (get_field row ''id'') \<and>
        (\<exists>d \<in> set (customers w). matches (get_field row ''id'') (acc_id own) d) \<longrightarrow>
        (\<exists>i < length (customers w).
           matches (get_field row ''id'') (acc_id own) (customers w ! i) \<and>
           (\<forall>j < i. \<not> matches (get_field row ''id'') (acc_id own) (customers w ! j)) \<and>
           fst (sync_row f own row w) = None \<and>
           customers (snd (sync_row f own row w)) =
             (customers w)[i := merge_row row (customers w ! i)]))
   \<and> (truthy (get_field row ''id'') \<and>
        \<not> (\<exists>d \<in> set (customers w). matches (get_field row ''id'') (acc_id own) d) \<longrightarrow>
        fst (sync_row f own row w) = None \<and>
        customers (snd (sync_row f own row w)) = customers w @ [new_customer own row])
   \<and> (\<forall>doc k. get_field (merge_row row doc) k =
         (if k \<in> set (object_keys row) \<and> k \<noteq> ''id'' then get_field row k
          else get_field doc k))
   \<and> (\<forall>k. get_field (new_customer own row) k =
         (if k = ''databricksId'' then get_field row ''id''
          else if k = ''id'' then JUndefined
          else if k = ''ownerId'' then acc_id own
          else get_field row k))"
proof -
  assume nf: "\<forall>v. \<not> find_fails f v" and nw: "\<forall>d. \<not> write_fails f d"
  let ?P = "matches (get_field row ''id'') (acc_id own)"
  have skip: "\<not> truthy (get_field row ''id'') \<Longrightarrow> sync_row f own row w = (None, w)"
    by (simp add: sync_row_def)
  have upd: "\<exists>i < length (customers w). ?P (customers w ! i) \<and> (\<forall>j < i. \<not> ?P (customers w ! j)) \<and>
           fst (sync_row f own row w) = None \<and>
           customers (snd (sync_row f own row w)) = (customers w)[i := merge_row row (customers w ! i)]"
    if t: "truthy (get_field row ''id'')" and ex: "\<exists>d \<in> set (customers w). ?P d"
  proof -
    from ex have "findOne ?P (customers w) \<noteq> None" by (simp add: findOne_None)
    then obtain i where i: "findOne ?P (customers w) = Some i" by auto
    from findOne_Some[OF i] have p: "i < length (customers w)" "?P (customers w ! i)"
       "\<forall>j < i. \<not> ?P (customers w ! j)" by auto
    have "fst (sync_row f own row w) = None \<and>
          customers (snd (sync_row f own row w)) = (customers w)[i := merge_row row (customers w ! i)]"
      using t i nf nw by (simp add: sync_row_def andThen_def call_def Let_def)
    with p show ?thesis by blast
  qed
  have cre: "fst (sync_row f own row w) = None \<and>
        customers (snd (sync_row f own row w)) = customers w @ [new_customer own row]"
    if t: "truthy (get_field row ''id'')" and nex: "\<not> (\<exists>d \<in> set (customers w). ?P d)"
  proof -
    from nex have "findOne ?P (customers w) = None" by (simp add: findOne_None)
    then show ?thesis
      using t nf nw by (simp add: sync_row_def andThen_def call_def Let_def)
  qed
  show ?thesis
    using skip upd cre by (simp add: get_merge_row get_new_customer)
qed

text \<open>The claim as stated fails twice: a row that carries the identifying column
  with the value \<open>0\<close> is skipped, and a created record does not hold the returned
  \<open>id\<close> field (its \<open>id\<close> is undefined).\<close>

theorem C5_counterexample:
  "sync_row ex_faults ex_owner [(''id'', JNum 0), (''name'', JStr ''Ann'')]
     \<lparr>customers = [], trace = []\<rparr>
   = (None, \<lparr>customers = [], trace = []\<rparr>)
   \<and> customers (snd (sync_row ex_faults ex_owner [(''id'', JNum 7), (''name'', JStr ''Ann'')]
        \<lparr>customers = [], trace = []\<rparr>))
   = [[(''id'', JUndefined), (''name'', JStr ''Ann''), (''ownerId'', JStr ''acc''),
       (''databricksId'', JNum 7)]]"
  by (simp add: sync_row_def andThen_def call_def Let_def get_field_def matches_def
        new_customer_def set_field_def ex_faults_def ex_owner_def)

text \<open>A row that matches the stored record changes only its \<open>plan\<close>; a row with a
  new identifier appends a record; a row without \<open>id\<close> changes nothing.\<close>

theorem C5_witness:
  "customers (snd (sync_row ex_faults ex_owner
      [(''id'', JNum 9), (''plan'', JStr ''pro'')] ex_world)) =
     [[(''name'', JStr ''Bob''), (''ownerId'', JStr ''acc''), (''databricksId'', JNum 9),
       (''plan'', JStr ''pro'')]]
   \<and> customers (snd (sync_row ex_faults ex_owner
      [(''id'', JNum 7), (''plan'', JStr ''pro'')] ex_world)) =
     [[(''name'', JStr ''Bob''), (''ownerId'', JStr ''acc''), (''databricksId'', JNum 9),
       (''plan'', JStr ''free'')],
      [(''id'', JUndefined), (''plan'', JStr ''pro''), (''ownerId'', JStr ''acc''),
       (''databricksId'', JNum 7)]]
   \<and> sync_row ex_faults ex_owner [(''plan'', JStr ''pro'')] ex_world = (None, ex_world)"
  using C5_upsert_row[where f = ex_faults and own = ex_owner and w = ex_world
          and row = "[(''id'', JNum 9), (''plan'', JStr ''pro'')]"]
        C5_upsert_row[where f = ex_faults and own = ex_owner and w = ex_world
          and row = "[(''id'', JNum 7), (''plan'', JStr ''pro'')]"]
        C5_upsert_row[where f = ex_faults and own = ex_owner and w = ex_world
          and row = "[(''plan'', JStr ''pro'')]"]
  by (simp add: ex_faults_def ex_owner_def ex_world_def get_field_def matches_def
        merge_row_def merge_key_def object_keys_def new_customer_def set_field_def)


section \<open>Properties of the cron service\<close>

subsection \<open>The watermark\<close>

text \<open>
  Claim C1. The watermark is \<^verbatim>\<open>new Date(...) || new Date('2000-10-10')\<close>. A Date
  object is truthy even when it is invalid, so the right operand is never taken:
  for every answer of the sink the watermark is the timezone-adjusted date of
  that answer, and when the sink has no answer (\<open>dateInDB\<close> undefined) it is an
  Invalid Date, not the epoch floor.
\<close>

theorem C1_empty_sink_watermark:
  "lastEventFetch parse tzOffset JUndefined = JDate None
   \<and> lastEventFetch parse tzOffset dateInDB =
       JDate (timeClip (map_option (\<lambda>t. t - tzOffset * 60 * 1000) (newDate parse dateInDB)))"
  by (simp add: lastEventFetch_def js_or_def timeClip_def)

subsection \<open>Type inference\<close>




subsection \<open>Schema discovery\<close>

lemma update_ok:
  "samples_ok keys \<Longrightarrow> key \<notin> set KEYS_TO_SKIP \<Longrightarrow> samples_ok (AList.update key v keys)"
  unfolding samples_ok_def
  by (simp add: distinct_update dom_update)

lemma collect_key_ok:
  "collect_key ob key keys = Inr keys' \<Longrightarrow> samples_ok keys \<Longrightarrow> samples_ok keys'"
  by (auto simp: collect_key_def update_ok split: option.splits if_splits)

lemma collect_keys_ok:
  "collect_keys ob ks keys = Inr keys' \<Longrightarrow> samples_ok keys \<Longrightarrow> samples_ok keys'"
  by (induction ks arbitrary: keys) (auto split: sum.splits dest: collect_key_ok)

lemma collect_customer_ok:
  "collect_customer ob keys = Inr keys' \<Longrightarrow> samples_ok keys \<Longrightarrow> samples_ok keys'"
  unfolding collect_customer_def by (rule collect_keys_ok)

lemma collect_batch_ok:
  "collect_batch obs keys = Inr keys' \<Longrightarrow> samples_ok keys \<Longrightarrow> samples_ok keys'"
  by (induction obs arbitrary: keys) (auto split: sum.splits dest: collect_customer_ok)

lemma scan_Inr:
  "current < documentsCount \<Longrightarrow> scan store documentsCount current keys = Inr keys' \<Longrightarrow>
   \<exists>k1. collect_batch (take BATCH_SIZE (drop current store)) keys = Inr k1
      \<and> scan store documentsCount (current + BATCH_SIZE) k1 = Inr keys'"
  by (subst (asm) scan.simps) (auto split: sum.splits)

lemma scan_ok:
  "scan store documentsCount current keys = Inr keys' \<Longrightarrow> samples_ok keys \<Longrightarrow> samples_ok keys'"
proof (induction store documentsCount current keys rule: scan.induct)
  case (1 store documentsCount current keys)
  show ?case
  proof (cases "current < documentsCount")
    case True
    from scan_Inr[OF True "1.prems"(1)] obtain k1 where
      b: "collect_batch (take BATCH_SIZE (drop current store)) keys = Inr k1" and
      s: "scan store documentsCount (current + BATCH_SIZE) k1 = Inr keys'" by blast
    from collect_batch_ok[OF b "1.prems"(2)] have "samples_ok k1" .
    from "1.IH"[OF True b s this] show ?thesis .
  next
    case False
    with "1.prems" show ?thesis by (subst (asm) scan.simps) simp
  qed
qed

lemma scan_from_empty_ok: "scan store documentsCount 0 [] = Inr keys \<Longrightarrow> samples_ok keys"
  by (erule scan_ok) (simp add: samples_ok_def)

text \<open>The only error of the scan is the TypeError, and it needs a field with an
  inherited name.\<close>

lemma collect_keys_error: "collect_keys ob ks keys = Inl e \<Longrightarrow> e = TypeError"
  by (induction ks arbitrary: keys)
     (auto simp: collect_key_def split: sum.splits option.splits if_splits)

lemma collect_batch_error: "collect_batch obs keys = Inl e \<Longrightarrow> e = TypeError"
  by (induction obs arbitrary: keys)
     (auto simp: collect_customer_def split: sum.splits dest: collect_keys_error)

lemma scan_error: "scan store documentsCount current keys = Inl e \<Longrightarrow> e = TypeError"
proof (induction store documentsCount current keys rule: scan.induct)
  case (1 store documentsCount current keys)
  show ?case
  proof (cases "current < documentsCount")
    case True
    show ?thesis
    proof (cases "collect_batch (take BATCH_SIZE (drop current store)) keys")
      case (Inl e')
      with True "1.prems" have "e' = e" by (subst (asm) scan.simps) simp
      with Inl show ?thesis by (auto dest: collect_batch_error)
    next
      case (Inr k1)
      with True "1.prems" have "scan store documentsCount (current + BATCH_SIZE) k1 = Inl e"
        by (subst (asm) scan.simps) simp
      from "1.IH"[OF True Inr this] show ?thesis .
    qed
  next
    case False
    with "1.prems" show ?thesis by (subst (asm) scan.simps) simp
  qed
qed

lemma collect_key_succeeds:
  "key \<notin> set object_prototype_names \<Longrightarrow> \<exists>keys'. collect_key ob key keys = Inr keys'"
  by (simp add: collect_key_def split: option.splits)

lemma collect_keys_succeeds:
  "set ks \<inter> set object_prototype_names = {} \<Longrightarrow> \<exists>keys'. collect_keys ob ks keys = Inr keys'"
proof (induction ks arbitrary: keys)
  case Nil
  then show ?case by simp
next
  case (Cons k ks)
  then have "k \<notin> set object_prototype_names" by auto
  from collect_key_succeeds[OF this, of ob keys]
  obtain k1 where k1: "collect_key ob k keys = Inr k1" by blast
  from Cons have "set ks \<inter> set object_prototype_names = {}" by auto
  from Cons.IH[OF this, of k1] k1 show ?case by simp
qed

lemma collect_batch_succeeds:
  "\<forall>c \<in> set obs. set (object_keys c) \<inter> set object_prototype_names = {} \<Longrightarrow>
   \<exists>keys'. collect_batch obs keys = Inr keys'"
proof (induction obs arbitrary: keys)
  case Nil
  then show ?case by simp
next
  case (Cons c obs)
  then have "set (object_keys c) \<inter> set object_prototype_names = {}" by simp
  from collect_keys_succeeds[OF this, of c keys] obtain k1 where
    k1: "collect_customer c keys = Inr k1" by (auto simp: collect_customer_def)
  from Cons have "\<forall>c \<in> set obs. set (object_keys c) \<inter> set object_prototype_names = {}" by simp
  from Cons.IH[OF this, of k1] k1 show ?case by simp
qed

lemma scan_succeeds:
  "\<forall>c \<in> set store. set (object_keys c) \<inter> set object_prototype_names = {} \<Longrightarrow>
   \<exists>keys'. scan store documentsCount current keys = Inr keys'"
proof (induction store documentsCount current keys rule: scan.induct)
  case (1 store documentsCount current keys)
  show ?case
  proof (cases "current < documentsCount")
    case True
    have "\<forall>c \<in> set (take BATCH_SIZE (drop current store)).
            set (object_keys c) \<inter> set object_prototype_names = {}"
      using "1.prems" by (meson in_set_dropD in_set_takeD)
    from collect_batch_succeeds[OF this, of keys] obtain k1 where
      k1: "collect_batch (take BATCH_SIZE (drop current store)) keys = Inr k1" by blast
    from "1.IH"[OF True k1 "1.prems"] obtain keys' where
      "scan store documentsCount (current + BATCH_SIZE) k1 = Inr keys'" by blast
    with True k1 show ?thesis by (subst scan.simps) simp
  next
    case False
    then show ?thesis by (subst scan.simps) simp
  qed
qed

lemma find_valid_usable: "usable (find_valid xs) \<longleftrightarrow> (\<exists>x \<in> set xs. usable x)"
proof (cases "List.find usable xs")
  case None
  then have "\<not> (\<exists>x \<in> set xs. usable x)" by (auto simp: find_None_iff)
  moreover have "find_valid xs = JUndefined" using None by (simp add: find_valid_def)
  moreover have "\<not> usable JUndefined" by (simp add: usable_def)
  ultimately show ?thesis by simp
next
  case (Some v)
  then have "usable v" "v \<in> set xs" by (auto simp: find_Some_iff)
  moreover have "find_valid xs = v" using Some by (simp add: find_valid_def)
  ultimately show ?thesis by auto
qed

lemma infer_key_skip:
  "\<not> (\<exists>x \<in> set (samples_of keys key). usable x) \<Longrightarrow> infer_key lib keys key w = w"
  using find_valid_usable[of "samples_of keys key"]
  by (auto simp: infer_key_def samples_of_def usable_def Let_def)

lemma infer_key_write:
  "\<exists>x \<in> set (samples_of keys key). usable x \<Longrightarrow>
   infer_key lib keys key w =
     w\<lparr>customerKeys := AList.update key (infer lib (find_valid (samples_of keys key))) (customerKeys w),
       updates := updates w @ [(key, infer lib (find_valid (samples_of keys key)))]\<rparr>"
  using find_valid_usable[of "samples_of keys key"]
  by (auto simp: infer_key_def samples_of_def usable_def Let_def split: prod.splits)

lemma updates_fold_infer:
  "map fst (updates (fold (infer_key lib keys) ks w)) =
     map fst (updates w) @ filter (\<lambda>k. \<exists>x \<in> set (samples_of keys k). usable x) ks"
proof (induction ks arbitrary: w)
  case Nil then show ?case by simp
next
  case (Cons k ks)
  show ?case
  proof (cases "\<exists>x \<in> set (samples_of keys k). usable x")
    case True
    then show ?thesis using Cons.IH by (simp add: infer_key_write)
  next
    case False
    then show ?thesis using Cons.IH by (simp add: infer_key_skip)
  qed
qed

lemma customerKeys_fold_infer:
  "distinct ks \<Longrightarrow>
   map_of (customerKeys (fold (infer_key lib keys) ks w)) k =
     (if k \<in> set ks \<and> (\<exists>x \<in> set (samples_of keys k). usable x)
      then Some (infer lib (find_valid (samples_of keys k)))
      else map_of (customerKeys w) k)"
proof (induction ks arbitrary: w)
  case Nil then show ?case by simp
next
  case (Cons a ks)
  show ?case
  proof (cases "\<exists>x \<in> set (samples_of keys a). usable x")
    case True
    then show ?thesis using Cons by (auto simp: infer_key_write update_conv')
  next
    case False
    then show ?thesis using Cons by (auto simp: infer_key_skip)
  qed
qed

lemma count_in_distinct_filter:
  "distinct ks \<Longrightarrow> length (filter (\<lambda>x. x = k) (filter P ks)) = (if k \<in> set ks \<and> P k then 1 else 0)"
  by (induction ks) auto

lemma logged_fold_infer: "logged (fold (infer_key lib keys) ks w) = logged w"
  by (induction ks arbitrary: w) (auto simp: infer_key_def Let_def split: prod.splits)

text \<open>
  Claim C7. The accumulator of the scan is the object literal \<^verbatim>\<open>{}\<close>, which
  inherits the properties of plain objects: for a field named like one of them
  (\<^verbatim>\<open>constructor\<close>, \<^verbatim>\<open>toString\<close> and the like) the test \<^verbatim>\<open>keys[key]\<close> succeeds
  before the field has been recorded, and \<^verbatim>\<open>push\<close> on the inherited value raises
  a TypeError. A run of the job either completes its scan or meets such a field;
  when no customer has such a field the scan completes. In a run whose scan
  completes and that starts with no update recorded, the code does what the
  claim says: let \<open>xs\<close> be the samples accumulated for field \<open>k\<close>; if no sample
  is usable (each is the empty string, undefined or null), the run makes no
  update for \<open>k\<close> and leaves the metadata of \<open>k\<close> as it was, and no error is
  raised or logged; if some sample is usable, the run makes exactly one update
  keyed on \<open>k\<close>, and the metadata of \<open>k\<close> is the type inferred from the first
  usable sample. In a run whose scan meets an inherited name the code misses it:
  the job logs the TypeError and writes no metadata for any field, whatever
  usable samples it has seen.
\<close>

theorem C7_one_upsert_per_usable_field:
  "(\<forall>keys. scan store documentsCount 0 [] = Inr keys \<and> map_of keys k = Some xs \<and>
        updates w = [] \<longrightarrow>
      length (filter (\<lambda>u. fst u = k) (updates (handleCustomerKeysCron lib store documentsCount w)))
        = (if \<exists>x \<in> set xs. usable x then 1 else 0)
      \<and> map_of (customerKeys (handleCustomerKeysCron lib store documentsCount w)) k
        = (if \<exists>x \<in> set xs. usable x then Some (infer lib (find_valid xs))
           else map_of (customerKeys w) k)
      \<and> logged (handleCustomerKeysCron lib store documentsCount w) = logged w)
   \<and> (\<forall>e. scan store documentsCount 0 [] = Inl e \<longrightarrow>
        e = TypeError \<and>
        handleCustomerKeysCron lib store documentsCount w = w\<lparr>logged := logged w @ [TypeError]\<rparr>)
   \<and> ((\<forall>c \<in> set store. set (object_keys c) \<inter> set object_prototype_names = {}) \<longrightarrow>
        (\<exists>keys. scan store documentsCount 0 [] = Inr keys))"
proof -
  have compl: "length (filter (\<lambda>u. fst u = k) (updates (handleCustomerKeysCron lib store documentsCount w)))
        = (if \<exists>x \<in> set xs. usable x then 1 else 0)
      \<and> map_of (customerKeys (handleCustomerKeysCron lib store documentsCount w)) k
        = (if \<exists>x \<in> set xs. usable x then Some (infer lib (find_valid xs))
           else map_of (customerKeys w) k)
      \<and> logged (handleCustomerKeysCron lib store documentsCount w) = logged w"
    if sc: "scan store documentsCount 0 [] = Inr keys" and k: "map_of keys k = Some xs"
      and w: "updates w = []" for keys
  proof -
    have run: "handleCustomerKeysCron lib store documentsCount w =
        fold (infer_key lib keys) (map fst keys) w"
      using sc by (simp add: handleCustomerKeysCron_def)
    have d: "distinct (map fst keys)"
      using scan_from_empty_ok[OF sc] by (simp add: samples_ok_def)
    have kin: "k \<in> set (map fst keys)"
      using k by (metis map_of_eq_None_iff option.distinct(1) set_map)
    have s: "samples_of keys k = xs" using k by (simp add: samples_of_def)
    let ?P = "\<lambda>k. \<exists>x \<in> set (samples_of keys k). usable x"
    have m: "map fst (updates (fold (infer_key lib keys) (map fst keys) w)) = filter ?P (map fst keys)"
      by (simp only: updates_fold_infer w list.map append_Nil)
    have "length (filter (\<lambda>u. fst u = k) (updates (fold (infer_key lib keys) (map fst keys) w)))
          = length (filter (\<lambda>x. x = k) (map fst (updates (fold (infer_key lib keys) (map fst keys) w))))"
      by (simp add: filter_map comp_def)
    also have "\<dots> = (if k \<in> set (map fst keys) \<and> ?P k then 1 else 0)"
      by (simp only: m count_in_distinct_filter[OF d])
    also have "\<dots> = (if \<exists>x \<in> set xs. usable x then 1 else 0)"
      using kin s by simp
    finally have a: "length (filter (\<lambda>u. fst u = k) (updates (handleCustomerKeysCron lib store documentsCount w)))
       = (if \<exists>x \<in> set xs. usable x then 1 else 0)"
      by (simp only: run)
    have b: "map_of (customerKeys (handleCustomerKeysCron lib store documentsCount w)) k
       = (if \<exists>x \<in> set xs. usable x then Some (infer lib (find_valid xs)) else map_of (customerKeys w) k)"
      using customerKeys_fold_infer[OF d, of lib keys w k] kin s
      by (simp add: run)
    have c: "logged (handleCustomerKeysCron lib store documentsCount w) = logged w"
      by (simp add: run logged_fold_infer)
    from a b c show ?thesis by simp
  qed
  have abort: "e = TypeError \<and>
        handleCustomerKeysCron lib store documentsCount w = w\<lparr>logged := logged w @ [TypeError]\<rparr>"
    if "scan store documentsCount 0 [] = Inl e" for e
    using that scan_error[OF that] by (simp add: handleCustomerKeysCron_def)
  have ok: "\<exists>keys. scan store documentsCount 0 [] = Inr keys"
    if "\<forall>c \<in> set store. set (object_keys c) \<inter> set object_prototype_names = {}"
    using scan_succeeds[OF that] .
  from compl abort ok show ?thesis by blast
qed

text \<open>A store where the second customer has a field named \<^verbatim>\<open>constructor\<close>: the
  field \<open>name\<close> has been seen with the usable sample \<open>Ann\<close>, and the run makes
  no update at all and logs a TypeError.\<close>

theorem C7_counterexample:
  "handleCustomerKeysCron ex_lib
     [[(''_id'', JNum 1), (''name'', JStr ''Ann'')],
      [(''_id'', JNum 2), (''constructor'', JStr ''x''), (''name'', JStr ''Bob'')]]
     2 \<lparr>customerKeys = [], updates = [], logged = []\<rparr>
   = \<lparr>customerKeys = [], updates = [], logged = [TypeError]\<rparr>"
  by (simp add: handleCustomerKeysCron_def scan.simps BATCH_SIZE_def collect_customer_def
        collect_key_def object_keys_def KEYS_TO_SKIP_def object_prototype_names_def get_field_def)

lemma ex_scan:
  "scan ex_store 2 0 [] = Inr [(''email'', [JStr [], JNull]), (''name'', [JStr ''Ann'', JStr []])]"
  by (simp add: scan.simps ex_store_def BATCH_SIZE_def collect_customer_def collect_key_def
        object_keys_def KEYS_TO_SKIP_def object_prototype_names_def get_field_def)

text \<open>Two customers: \<open>email\<close> has no usable sample, \<open>name\<close> has one.\<close>

theorem C7_witness:
  "length (filter (\<lambda>u. fst u = ''email'') (updates (handleCustomerKeysCron ex_lib ex_store 2 ex_keys_world))) = 0
   \<and> map_of (customerKeys (handleCustomerKeysCron ex_lib ex_store 2 ex_keys_world)) ''email''
       = Some (''String'', False)
   \<and> length (filter (\<lambda>u. fst u = ''name'') (updates (handleCustomerKeysCron ex_lib ex_store 2 ex_keys_world))) = 1
   \<and> map_of (customerKeys (handleCustomerKeysCron ex_lib ex_store 2 ex_keys_world)) ''name''
       = Some (''String'', False)
   \<and> logged (handleCustomerKeysCron ex_lib ex_store 2 ex_keys_world) = []
   \<and> handleCustomerKeysCron ex_lib ex_store_inherited 2 ex_keys_world
       = ex_keys_world\<lparr>logged := [TypeError]\<rparr>"
proof -
  have e: "map_of [(''email'', [JStr [], JNull]), (''name'', [JStr ''Ann'', JStr []])] ''email''
             = Some [JStr [], JNull]"
    and n: "map_of [(''email'', [JStr [], JNull]), (''name'', [JStr ''Ann'', JStr []])] ''name''
             = Some [JStr ''Ann'', JStr []]"
    by simp_all
  have u: "updates ex_keys_world = []" by (simp add: ex_keys_world_def)
  have bad: "scan ex_store_inherited 2 0 [] = Inl TypeError"
    by (simp add: scan.simps ex_store_inherited_def BATCH_SIZE_def collect_customer_def
          collect_key_def object_keys_def KEYS_TO_SKIP_def object_prototype_names_def get_field_def)
  from C7_one_upsert_per_usable_field[of ex_store 2 "''email''" "[JStr [], JNull]" ex_keys_world ex_lib]
       ex_scan e u
  have a: "length (filter (\<lambda>u. fst u = ''email'') (updates (handleCustomerKeysCron ex_lib ex_store 2 ex_keys_world)))
        = (if \<exists>x \<in> set [JStr [], JNull]. usable x then 1 else 0)
      \<and> map_of (customerKeys (handleCustomerKeysCron ex_lib ex_store 2 ex_keys_world)) ''email''
        = (if \<exists>x \<in> set [JStr [], JNull]. usable x then Some (infer ex_lib (find_valid [JStr [], JNull]))
           else map_of (customerKeys ex_keys_world) ''email'')
      \<and> logged (handleCustomerKeysCron ex_lib ex_store 2 ex_keys_world) = logged ex_keys_world"
    by blast
  from C7_one_upsert_per_usable_field[of ex_store 2 "''name''" "[JStr ''Ann'', JStr []]" ex_keys_world ex_lib]
       ex_scan n u
  have b: "length (filter (\<lambda>u. fst u = ''name'') (updates (handleCustomerKeysCron ex_lib ex_store 2 ex_keys_world)))
        = (if \<exists>x \<in> set [JStr ''Ann'', JStr []]. usable x then 1 else 0)
      \<and> map_of (customerKeys (handleCustomerKeysCron ex_lib ex_store 2 ex_keys_world)) ''name''
        = (if \<exists>x \<in> set [JStr ''Ann'', JStr []]. usable x
           then Some (infer ex_lib (find_valid [JStr ''Ann'', JStr []]))
           else map_of (customerKeys ex_keys_world) ''name'')"
    by blast
  from C7_one_upsert_per_usable_field[of ex_store_inherited 2 "''name''" "[]" ex_keys_world ex_lib] bad
  have c: "handleCustomerKeysCron ex_lib ex_store_inherited 2 ex_keys_world
       = ex_keys_world\<lparr>logged := logged ex_keys_world @ [TypeError]\<rparr>"
    by blast
  from a b c show ?thesis
    by (simp add: usable_def find_valid_def infer_def ex_lib_def ex_keys_world_def)
qed

text \<open>
  Claim C8. Whatever the customer records hold and whatever the libraries answer,
  a run makes no update for \<open>__v\<close>, \<open>_id\<close>, \<open>audiences\<close> or \<open>ownerId\<close>, and the
  metadata stored under such a name is left as it was.
\<close>

theorem C8_structural_fields_never_written:
  "k \<in> set KEYS_TO_SKIP \<Longrightarrow> updates w = [] \<Longrightarrow>
   k \<notin> fst ` set (updates (handleCustomerKeysCron lib store documentsCount w))
   \<and> map_of (customerKeys (handleCustomerKeysCron lib store documentsCount w)) k
       = map_of (customerKeys w) k"
proof (cases "scan store documentsCount 0 []")
  case (Inl e)
  assume "updates w = []"
  with Inl show ?thesis by (simp add: handleCustomerKeysCron_def)
next
  case (Inr keys)
  assume k: "k \<in> set KEYS_TO_SKIP" and w: "updates w = []"
  have run: "handleCustomerKeysCron lib store documentsCount w =
      fold (infer_key lib keys) (map fst keys) w"
    using Inr by (simp add: handleCustomerKeysCron_def)
  have ok: "samples_ok keys" using Inr by (rule scan_from_empty_ok)
  then have d: "distinct (map fst keys)" and nk: "k \<notin> set (map fst keys)"
    using k unfolding samples_ok_def by blast+
  have "fst ` set (updates (fold (infer_key lib keys) (map fst keys) w))
        = set (map fst (updates (fold (infer_key lib keys) (map fst keys) w)))" by simp
  also have "\<dots> \<subseteq> set (map fst keys)"
    using w by (simp only: updates_fold_infer) auto
  finally have a: "k \<notin> fst ` set (updates (handleCustomerKeysCron lib store documentsCount w))"
    using nk by (auto simp: run)
  have b: "map_of (customerKeys (handleCustomerKeysCron lib store documentsCount w)) k
       = map_of (customerKeys w) k"
    using customerKeys_fold_infer[OF d, of lib keys w k] nk
    by (simp add: run)
  from a b show ?thesis by simp
qed

theorem C8_witness:
  "''_id'' \<notin> fst ` set (updates (handleCustomerKeysCron ex_lib ex_store 2 ex_keys_world))
   \<and> map_of (customerKeys (handleCustomerKeysCron ex_lib ex_store 2 ex_keys_world)) ''_id'' = None"
proof -
  have k: "''_id'' \<in> set KEYS_TO_SKIP" by (simp add: KEYS_TO_SKIP_def)
  have u: "updates ex_keys_world = []" by (simp add: ex_keys_world_def)
  from C8_structural_fields_never_written[OF k u, of ex_lib ex_store 2]
  show ?thesis by (simp add: ex_keys_world_def)
qed

subsection \<open>Paging the pull provider\<close>

lemma lastEventTimestamp_Nil: "lastEventTimestamp [] = None"
  by (simp add: lastEventTimestamp_def)

lemma not_continue_NaN: "\<not> continue_paging None fetched"
  by (simp add: continue_paging_def)

text \<open>
  Claim C9. A page without items ends the paging. In the loop: when the guard
  holds and the page requested comes back empty, the loop returns after that one
  request, with the batch as it was. Before the loop: when the first answer is
  empty, the loop makes no request. The reason is the guard: the last-event
  timestamp of an empty page is \<open>NaN\<close>, which is falsy. In each case the result
  is \<open>Some\<close>: the loop does return.
\<close>

theorem C9_empty_page_ends_paging:
  "(continue_paging lts fetched \<and> mg (begin_of fetched) (Some page) = Inr events \<and>
      items events = [] \<longrightarrow>
      page_loop mg fetched page lts batchToSave asked = Some (Inr batchToSave, asked @ [page]))
   \<and> (mg (begin_of fetched) None = Inr events \<and> items events = [] \<longrightarrow>
      fetch_account mg fetched = Some (Inr [], []))
   \<and> page_loop mg fetched page (lastEventTimestamp []) batchToSave asked =
       Some (Inr batchToSave, asked)"
proof -
  have stop: "page_loop mg fetched p (lastEventTimestamp []) b a = Some (Inr b, a)" for p b a
    by (subst page_loop.simps) (simp add: lastEventTimestamp_Nil not_continue_NaN)
  have one: "page_loop mg fetched page lts batchToSave asked = Some (Inr batchToSave, asked @ [page])"
    if "continue_paging lts fetched" "mg (begin_of fetched) (Some page) = Inr events" "items events = []"
    using that stop[of "next_number events" batchToSave "asked @ [page]"]
    by (subst page_loop.simps) simp
  have first: "fetch_account mg fetched = Some (Inr [], [])"
    if "mg (begin_of fetched) None = Inr events" "items events = []"
    using that stop[of "next_number events" "[]" "[]"]
    by (simp add: fetch_account_def)
  show ?thesis using stop one first by blast
qed

theorem C9_witness:
  "fetch_account ex_mg (Some 0) =
     Some (Inr [[(''audienceId'', JStr ''aud''), (''customerId'', JStr ''cus''),
                 (''event'', JStr ''delivered''), (''eventProvider'', JStr ''mailgun''),
                 (''messageId'', JStr ''m1''), (''createdAt'', JDate (Some 100000))]],
           [JStr ''p2''])"
proof -
  have g: "continue_paging (Some 100000) (Some 0)"
    by (simp add: continue_paging_def timeClip_def maxTime_def)
  have p: "ex_mg (begin_of (Some 0)) (Some (JStr ''p2'')) = Inr \<lparr>items = [], next_number = JStr ''p2''\<rparr>"
    by (simp add: ex_mg_def)
  have i: "items \<lparr>items = [], next_number = JStr ''p2''\<rparr> = []" by simp
  from C9_empty_page_ends_paging[where lts = "Some 100000" and fetched = "Some 0" and mg = ex_mg
      and page = "JStr ''p2''" and events = "\<lparr>items = [], next_number = JStr ''p2''\<rparr>"] g p i
  have "page_loop ex_mg (Some 0) (JStr ''p2'') (Some 100000) b a = Some (Inr b, a @ [JStr ''p2''])" for b a
    by blast
  then show ?thesis
    by (simp add: fetch_account_def ex_mg_def ex_item_def lastEventTimestamp_def toUTCString_def
          timeClip_def maxTime_def get_field_def)
qed

subsection \<open>Draining the push provider\<close>

lemma fetched_append: "fetched_batches (cs @ ds) = fetched_batches cs @ fetched_batches ds"
  by (induction cs rule: fetched_batches.induct) auto

lemma inserted_append: "inserted_batches (cs @ ds) = inserted_batches cs @ inserted_batches ds"
  by (induction cs rule: inserted_batches.induct) auto

lemma fetched_deletes: "fetched_batches (map StagingDelete b) = []"
  by (induction b) auto

lemma inserted_deletes: "inserted_batches (map StagingDelete b) = []"
  by (induction b) auto

lemma filter_take_distinct:
  "distinct xs \<Longrightarrow> filter (\<lambda>r. r \<notin> set (take n xs)) xs = drop n xs"
proof -
  assume d: "distinct xs"
  let ?P = "\<lambda>r. r \<notin> set (take n xs)"
  have "distinct (take n xs @ drop n xs)" using d by simp
  then have disj: "set (take n xs) \<inter> set (drop n xs) = {}" by (simp only: distinct_append)
  have a: "filter ?P (take n xs) = []" by (simp add: filter_empty_conv)
  have b: "filter ?P (drop n xs) = drop n xs" using disj by (auto simp: filter_id_conv)
  have "filter ?P xs = filter ?P (take n xs @ drop n xs)" by simp
  also have "\<dots> = drop n xs" by (simp only: filter_append a b append_Nil)
  finally show ?thesis .
qed

lemma calls_fold_delete:
  "calls (fold delete_row batch w) = calls w @ map StagingDelete batch"
  by (induction batch arbitrary: w) (auto simp: delete_row_def)

lemma sink_fold_delete: "sink (fold delete_row batch w) = sink w"
  by (induction batch arbitrary: w) (auto simp: delete_row_def)

lemma drain_Nil:
  "staging w = [] \<Longrightarrow> drain w = w\<lparr>calls := calls w @ [StagingFind []]\<rparr>"
  by (subst drain.simps) simp

lemma drain_Cons:
  "staging w \<noteq> [] \<Longrightarrow>
   drain w = drain (drain_batch (take BATCH_SIZE (staging w))
               (w\<lparr>calls := calls w @ [StagingFind (take BATCH_SIZE (staging w))]\<rparr>))"
  by (subst drain.simps) (simp add: Let_def BATCH_SIZE_def)

lemma drain_staging: "staging (drain w) = []"
proof (induction w rule: drain.induct)
  case (1 w)
  show ?case
  proof (cases "staging w = []")
    case True then show ?thesis by (simp add: drain_Nil)
  next
    case False
    then have "0 < length (take BATCH_SIZE (staging w))" by (simp add: BATCH_SIZE_def)
    from 1[OF refl refl this] False show ?thesis by (simp add: drain_Cons)
  qed
qed

lemma drain_distinct:
  "distinct (staging w) \<Longrightarrow>
   calls (drain w) = calls w @ expected_calls (staging w) \<and>
   sink (drain w) = sink w @ map tag_sendgrid (staging w)"
proof (induction w rule: drain.induct)
  case (1 w)
  show ?case
  proof (cases "staging w = []")
    case True
    then show ?thesis by (simp add: drain_Nil expected_calls.simps[of "[]"])
  next
    case False
    let ?b = "take BATCH_SIZE (staging w)"
    let ?w1 = "w\<lparr>calls := calls w @ [StagingFind ?b]\<rparr>"
    let ?w2 = "drain_batch ?b ?w1"
    have pos: "0 < length ?b" using False by (simp add: BATCH_SIZE_def)
    have st: "staging ?w2 = drop BATCH_SIZE (staging w)"
      using "1.prems" by (simp add: staging_drain_batch filter_take_distinct)
    have ca: "calls ?w2 = calls w @ [StagingFind ?b, SinkInsert (map tag_sendgrid ?b)] @ map StagingDelete ?b"
      by (simp add: drain_batch_def calls_fold_delete insertMessages_def)
    have si: "sink ?w2 = sink w @ map tag_sendgrid ?b"
      by (simp add: drain_batch_def sink_fold_delete insertMessages_def)
    have "distinct (staging ?w2)" using "1.prems" st by simp
    from 1(1)[OF refl refl pos this]
    have ih: "calls (drain ?w2) = calls ?w2 @ expected_calls (staging ?w2)"
             "sink (drain ?w2) = sink ?w2 @ map tag_sendgrid (staging ?w2)" by simp_all
    have e: "expected_calls (staging w) =
        [StagingFind ?b, SinkInsert (map tag_sendgrid ?b)] @ map StagingDelete ?b
          @ expected_calls (drop BATCH_SIZE (staging w))"
      using False by (subst expected_calls.simps) simp
    have c: "calls (drain w) = calls w @ expected_calls (staging w)"
      using ih(1) by (simp only: drain_Cons[OF False] ca st e append_assoc)
    have "map tag_sendgrid ?b @ map tag_sendgrid (drop BATCH_SIZE (staging w)) = map tag_sendgrid (staging w)"
      by (simp only: map_append[symmetric] append_take_drop_id)
    then have s: "sink (drain w) = sink w @ map tag_sendgrid (staging w)"
      using ih(2) by (simp only: drain_Cons[OF False] si st append_assoc)
    from c s show ?thesis by simp
  qed
qed

lemma expected_1200:
  assumes "length pending = 1200"
  shows "map length (fetched_batches (expected_calls pending)) = [500, 500, 200, 0]"
    and "map length (inserted_batches (expected_calls pending)) = [500, 500, 200]"
proof -
  let ?p1 = "drop BATCH_SIZE pending"
  let ?p2 = "drop BATCH_SIZE ?p1"
  let ?p3 = "drop BATCH_SIZE ?p2"
  have l: "length ?p1 = 700" "length ?p2 = 200" "length ?p3 = 0"
    using assms by (simp_all add: BATCH_SIZE_def)
  have n: "pending \<noteq> []" "?p1 \<noteq> []" "?p2 \<noteq> []" "?p3 = []"
    using assms l by auto
  have t: "length (take BATCH_SIZE pending) = 500" "length (take BATCH_SIZE ?p1) = 500"
       "length (take BATCH_SIZE ?p2) = 200"
    using assms l by (simp_all add: BATCH_SIZE_def)
  have e3: "expected_calls ?p3 = [StagingFind []]"
    using n(4) by (subst expected_calls.simps) simp
  have e2: "expected_calls ?p2 = [StagingFind (take BATCH_SIZE ?p2),
            SinkInsert (map tag_sendgrid (take BATCH_SIZE ?p2))]
           @ map StagingDelete (take BATCH_SIZE ?p2) @ expected_calls ?p3"
    using n(3) by (subst expected_calls.simps) simp
  have e1: "expected_calls ?p1 = [StagingFind (take BATCH_SIZE ?p1),
            SinkInsert (map tag_sendgrid (take BATCH_SIZE ?p1))]
           @ map StagingDelete (take BATCH_SIZE ?p1) @ expected_calls ?p2"
    using n(2) by (subst expected_calls.simps) simp
  have e0: "expected_calls pending = [StagingFind (take BATCH_SIZE pending),
            SinkInsert (map tag_sendgrid (take BATCH_SIZE pending))]
           @ map StagingDelete (take BATCH_SIZE pending) @ expected_calls ?p1"
    using n(1) by (subst expected_calls.simps) simp
  show "map length (fetched_batches (expected_calls pending)) = [500, 500, 200, 0]"
    unfolding e0 e1 e2 e3 using t by (simp add: fetched_append fetched_deletes)
  show "map length (inserted_batches (expected_calls pending)) = [500, 500, 200]"
    unfolding e0 e1 e2 e3 using t by (simp add: inserted_append inserted_deletes)
qed

lemma expected_calls_Nil: "expected_calls [] = [StagingFind []]"
  by (subst expected_calls.simps) simp

lemma expected_calls_Cons:
  "pending \<noteq> [] \<Longrightarrow> expected_calls pending =
     [StagingFind (take BATCH_SIZE pending), SinkInsert (map tag_sendgrid (take BATCH_SIZE pending))]
       @ map StagingDelete (take BATCH_SIZE pending) @ expected_calls (drop BATCH_SIZE pending)"
  by (subst expected_calls.simps) simp

lemma expected_calls_nonempty: "expected_calls pending \<noteq> []"
  by (cases "pending = []") (simp_all add: expected_calls_Nil expected_calls_Cons)

lemma expected_calls_last: "last (expected_calls pending) = StagingFind []"
proof (induction pending rule: expected_calls.induct)
  case (1 pending)
  show ?case
  proof (cases "pending = []")
    case True then show ?thesis by (simp add: expected_calls_Nil)
  next
    case False
    with 1 show ?thesis
      by (simp add: expected_calls_Cons expected_calls_nonempty)
  qed
qed

lemma fetched_expected_nonempty: "fetched_batches (expected_calls pending) \<noteq> []"
  by (cases "pending = []") (simp_all add: expected_calls_Nil expected_calls_Cons)

lemma fetched_expected_batches:
  "b \<in> set (butlast (fetched_batches (expected_calls pending))) \<Longrightarrow> b \<noteq> [] \<and> length b \<le> BATCH_SIZE"
proof (induction pending rule: expected_calls.induct)
  case (1 pending)
  show ?case
  proof (cases "pending = []")
    case True
    with "1.prems" show ?thesis by (simp add: expected_calls_Nil)
  next
    case False
    have "fetched_batches (expected_calls pending) =
        take BATCH_SIZE pending # fetched_batches (expected_calls (drop BATCH_SIZE pending))"
      using False by (simp add: expected_calls_Cons fetched_append fetched_deletes)
    with "1.prems" have "b = take BATCH_SIZE pending \<or>
        b \<in> set (butlast (fetched_batches (expected_calls (drop BATCH_SIZE pending))))"
      by (simp add: fetched_expected_nonempty)
    then show ?thesis
    proof
      assume "b = take BATCH_SIZE pending"
      with False show ?thesis by (simp add: BATCH_SIZE_def)
    next
      assume "b \<in> set (butlast (fetched_batches (expected_calls (drop BATCH_SIZE pending))))"
      with 1(1)[OF False] show ?thesis by simp
    qed
  qed
qed

lemma get_tag_sendgrid:
  "get_field (tag_sendgrid r) k =
     (if k = ''eventProvider'' then JStr ''sendgrid'' else get_field r k)"
  by (simp add: tag_sendgrid_def get_set_field)

text \<open>
  Claim C6. The drain loop ends with the staging table empty. A tagged row is the
  row with its \<open>eventProvider\<close> set to \<open>sendgrid\<close> and every other field as it
  was. When the pending rows are distinct, the calls of the loop are exactly the
  expected ones: each round fetches at most 500 rows, inserts them into the sink
  tagged, and only then deletes each of them from staging; the last call is the
  fetch that returns no row, and no earlier fetch is empty; the sink receives
  every pending row, tagged, in order, so every record it receives names the
  provider. With 1200 pending rows the fetches return 500, 500, 200 and 0 rows,
  there are three inserts, of 500, 500 and 200 rows, and the sink grows by 1200
  records.
\<close>

theorem C6_drain_loop:
  "staging (drain w) = []
   \<and> (\<forall>k. get_field (tag_sendgrid r) k =
         (if k = ''eventProvider'' then JStr ''sendgrid'' else get_field r k))
   \<and> (distinct (staging w) \<longrightarrow>
        calls (drain w) = calls w @ expected_calls (staging w)
        \<and> sink (drain w) = sink w @ map tag_sendgrid (staging w)
        \<and> (\<forall>m \<in> set (drop (length (sink w)) (sink (drain w))).
              get_field m ''eventProvider'' = JStr ''sendgrid'')
        \<and> last (calls (drain w)) = StagingFind []
        \<and> (\<forall>b \<in> set (butlast (fetched_batches (expected_calls (staging w)))).
              b \<noteq> [] \<and> length b \<le> BATCH_SIZE)
        \<and> (length (staging w) = 1200 \<longrightarrow>
             map length (fetched_batches (calls (drain w))) =
               map length (fetched_batches (calls w)) @ [500, 500, 200, 0]
             \<and> map length (inserted_batches (calls (drain w))) =
               map length (inserted_batches (calls w)) @ [500, 500, 200]
             \<and> length (sink (drain w)) = length (sink w) + 1200))"
proof -
  have rest: "calls (drain w) = calls w @ expected_calls (staging w)
        \<and> sink (drain w) = sink w @ map tag_sendgrid (staging w)
        \<and> (\<forall>m \<in> set (drop (length (sink w)) (sink (drain w))).
              get_field m ''eventProvider'' = JStr ''sendgrid'')
        \<and> last (calls (drain w)) = StagingFind []
        \<and> (\<forall>b \<in> set (butlast (fetched_batches (expected_calls (staging w)))).
              b \<noteq> [] \<and> length b \<le> BATCH_SIZE)
        \<and> (length (staging w) = 1200 \<longrightarrow>
             map length (fetched_batches (calls (drain w))) =
               map length (fetched_batches (calls w)) @ [500, 500, 200, 0]
             \<and> map length (inserted_batches (calls (drain w))) =
               map length (inserted_batches (calls w)) @ [500, 500, 200]
             \<and> length (sink (drain w)) = length (sink w) + 1200)"
    if d: "distinct (staging w)"
  proof -
    note dd = drain_distinct[OF d]
    have t: "\<forall>m \<in> set (drop (length (sink w)) (sink (drain w))).
              get_field m ''eventProvider'' = JStr ''sendgrid''"
      using dd by (auto simp: get_tag_sendgrid)
    have l: "last (calls (drain w)) = StagingFind []"
      using dd by (simp add: expected_calls_nonempty expected_calls_last)
    have b: "\<forall>b \<in> set (butlast (fetched_batches (expected_calls (staging w)))).
              b \<noteq> [] \<and> length b \<le> BATCH_SIZE"
      using fetched_expected_batches by blast
    have n: "length (staging w) = 1200 \<Longrightarrow>
        map length (fetched_batches (calls (drain w))) = map length (fetched_batches (calls w)) @ [500, 500, 200, 0]
        \<and> map length (inserted_batches (calls (drain w))) = map length (inserted_batches (calls w)) @ [500, 500, 200]
        \<and> length (sink (drain w)) = length (sink w) + 1200"
      using dd expected_1200[of "staging w"] by (simp add: fetched_append inserted_append)
    from dd t l b n show ?thesis by blast
  qed
  with drain_staging[of w] get_tag_sendgrid[of r] show ?thesis by blast
qed

text \<open>1200 staged rows, numbered from 0: the first and the last record of the sink
  are the first and the last row, tagged.\<close>

theorem C6_witness:
  "staging (drain \<lparr>staging = ex_rows 1200, sink = [], calls = []\<rparr>) = []
   \<and> map length (fetched_batches (calls (drain \<lparr>staging = ex_rows 1200, sink = [], calls = []\<rparr>)))
       = [500, 500, 200, 0]
   \<and> map length (inserted_batches (calls (drain \<lparr>staging = ex_rows 1200, sink = [], calls = []\<rparr>)))
       = [500, 500, 200]
   \<and> length (sink (drain \<lparr>staging = ex_rows 1200, sink = [], calls = []\<rparr>)) = 1200
   \<and> sink (drain \<lparr>staging = ex_rows 1200, sink = [], calls = []\<rparr>) ! 0
       = [(''id'', JNum 0), (''event'', JStr ''delivered''), (''eventProvider'', JStr ''sendgrid'')]
   \<and> sink (drain \<lparr>staging = ex_rows 1200, sink = [], calls = []\<rparr>) ! 1199
       = [(''id'', JNum 1199), (''event'', JStr ''delivered''), (''eventProvider'', JStr ''sendgrid'')]"
proof -
  let ?w = "\<lparr>staging = ex_rows 1200, sink = [], calls = []\<rparr>"
  have "inj_on (\<lambda>i. [(''id'', JNum (int i)), (''event'', JStr ''delivered'')]) (set [0..<1200])"
    by (rule inj_onI) simp
  then have d: "distinct (staging ?w)"
    by (simp add: ex_rows_def distinct_map)
  have l: "length (staging ?w) = 1200"
    by (simp add: ex_rows_def)
  from C6_drain_loop[of ?w] d have t: "calls (drain ?w) = calls ?w @ expected_calls (staging ?w)
        \<and> sink (drain ?w) = sink ?w @ map tag_sendgrid (staging ?w)
        \<and> (length (staging ?w) = 1200 \<longrightarrow>
             map length (fetched_batches (calls (drain ?w))) =
               map length (fetched_batches (calls ?w)) @ [500, 500, 200, 0]
             \<and> map length (inserted_batches (calls (drain ?w))) =
               map length (inserted_batches (calls ?w)) @ [500, 500, 200]
             \<and> length (sink (drain ?w)) = length (sink ?w) + 1200)"
    by blast
  from C6_drain_loop[of ?w] have a: "staging (drain ?w) = []" by blast
  from t l have b: "map length (fetched_batches (calls (drain ?w))) =
      map length (fetched_batches (calls ?w)) @ [500, 500, 200, 0]" by blast
  from t l have c: "map length (inserted_batches (calls (drain ?w))) =
      map length (inserted_batches (calls ?w)) @ [500, 500, 200]" by blast
  from t l have e: "length (sink (drain ?w)) = length (sink ?w) + 1200" by blast
  from t have s: "sink (drain ?w) = map tag_sendgrid (ex_rows 1200)" by simp
  have s0: "sink (drain ?w) ! 0
       = [(''id'', JNum 0), (''event'', JStr ''delivered''), (''eventProvider'', JStr ''sendgrid'')]"
    unfolding s by (simp add: ex_rows_def tag_sendgrid_def set_field_def)
  have s1: "sink (drain ?w) ! 1199
       = [(''id'', JNum 1199), (''event'', JStr ''delivered''), (''eventProvider'', JStr ''sendgrid'')]"
    unfolding s by (simp add: ex_rows_def tag_sendgrid_def set_field_def)
  from a b c e s0 s1 show ?thesis by simp
qed

end
